theory Spec2Isabelle
  imports Main "HOL-Library.Word"
begin

section \<open>Bytes, errors and the operating system's side of a socket\<close>

type_synonym byte = "8 word"

type_synonym handle = nat

text \<open>
  The exceptions the module raises itself (\<open>MuxError\<close>, the failed \<open>assert\<close>) and the
  ones of the library calls it makes (\<open>struct.error\<close>, \<open>ValueError\<close> of \<open>int\<close>,
  \<open>OSError\<close> of \<open>connect\<close>, \<open>ssl.SSLError\<close>, and whatever \<open>plistlib\<close> raises).
\<close>

datatype error =
    MuxError string
  | AssertionError
  | StructError
  | ValueError
  | OSError
  | SSLError
  | NotImplementedError
  | PlistError

datatype family = AF_INET | AF_UNIX

datatype sockaddr = HostPort string int | UnixPath string

text \<open>
  Every call on a socket object that goes through is recorded, in order:
  \<open>EvRecv h k chunk\<close> is \<open>recv(k)\<close> on \<open>h\<close> returning \<open>chunk\<close>;
  \<open>EvDup h d\<close> is \<open>h.dup()\<close> returning \<open>d\<close>; \<open>EvWrap h ss\<close> is
  \<open>wrap_socket(h)\<close> creating the TLS socket \<open>ss\<close> on the descriptor of \<open>h\<close> and
  detaching \<open>h\<close> from it; \<open>EvHandshake ss\<close> is the handshake attempted on \<open>ss\<close>.
\<close>

datatype event =
    EvSocket handle family
  | EvConnect handle sockaddr
  | EvRecv handle nat "byte list"
  | EvSend handle "byte list"
  | EvDup handle handle
  | EvWrap handle handle
  | EvHandshake handle
  | EvClose handle

section \<open>The identity allocator\<close>

text \<open>
  \<open>get_uniq_id\<close> increments the module-level counter \<open>_n[0]\<close> under the lock and returns
  the new value. The lock serialises the calls, so a call is a step on the counter: it
  takes the counter and gives the value returned and the counter afterwards. Python
  integers are unbounded.
\<close>

definition get_uniq_id :: "int \<Rightarrow> int \<times> int" where
  "get_uniq_id n0 = (let n1 = n0 + 1 in (n1, n1))"

text \<open>The values returned by \<open>k\<close> calls in a row, oldest first.\<close>

fun uniq_ids :: "nat \<Rightarrow> int \<Rightarrow> int list" where
  "uniq_ids 0 n0 = []"
| "uniq_ids (Suc k) n0 = (case get_uniq_id n0 of (v, n1) \<Rightarrow> v # uniq_ids k n1)"

section \<open>SafeStreamSocket\<close>

text \<open>
  What the object in \<open>_sock\<close> is: a plain socket, a socket that \<open>wrap_socket\<close> has
  detached from its descriptor, or the \<open>SSLSocket\<close> that \<open>wrap_socket\<close> returned.
\<close>

datatype socket_class = PlainSocket | DetachedSocket | SSLSocket

text \<open>
  The attributes of the object are \<open>conn_id\<close> (\<open>_id\<close>), \<open>sock\<close>, \<open>name\<close>,
  \<open>sock_gclist\<close>, \<open>dup_sock\<close> and \<open>finalizer_alive\<close> (\<open>_finalizer.alive\<close>);
  \<open>sock_class\<close> says what the object in \<open>_sock\<close> is.
  The last three fields are not attributes: they are the operating system's side of the
  connection. \<open>inbound\<close> holds the bytes the peer sends before it closes that have not
  been read yet; \<open>chunking\<close> says how the network cuts them: an entry \<open>d\<close> makes the
  next \<open>recv\<close> deliver at most \<open>d + 1\<close> bytes, and once the list is used up a
  \<open>recv\<close> delivers all it is asked for; \<open>trace\<close> is the record of the socket calls.
\<close>

record safe_stream_socket =
  conn_id :: int
  sock :: handle
  sock_class :: socket_class
  name :: "string option"
  sock_gclist :: "handle list"
  dup_sock :: "handle option"
  finalizer_alive :: bool
  inbound :: "byte list"
  chunking :: "nat list"
  trace :: "event list"

text \<open>
  \<open>socket.recv(bufsize)\<close>: at most \<open>bufsize\<close> bytes, at least one while the peer has
  bytes left, and the empty byte string once the peer has closed.
\<close>

definition recv :: "nat \<Rightarrow> 'a safe_stream_socket_scheme \<Rightarrow> byte list \<times> 'a safe_stream_socket_scheme" where
  "recv bufsize s =
     (let k = (case chunking s of [] \<Rightarrow> bufsize | d # _ \<Rightarrow> min bufsize (Suc d));
          chunk = take k (inbound s)
      in (chunk,
          s\<lparr>inbound := drop k (inbound s),
            chunking := (case chunking s of [] \<Rightarrow> [] | _ # ds \<Rightarrow> ds),
            trace := trace s @ [EvRecv (sock s) bufsize chunk]\<rparr>))"

text \<open>
  The loop of \<open>recvall\<close>, with \<open>buf\<close> the bytes accumulated so far. \<open>size\<close> is a
  Python integer; the loop asks for \<open>size - len(buf)\<close>, which is positive where it is
  computed. (\<open>sz\<close> is the source's \<open>size\<close>.)
\<close>

function recvall_loop ::
  "int \<Rightarrow> byte list \<Rightarrow> 'a safe_stream_socket_scheme \<Rightarrow> (error + byte list) \<times> 'a safe_stream_socket_scheme" where
  "recvall_loop sz buf s =
     (if int (length buf) < sz then
        (case recv (nat (sz - int (length buf))) s of
           (chunk, s') \<Rightarrow>
             if chunk = [] then (Inl (MuxError ''socket connection broken''), s')
             else recvall_loop sz (buf @ chunk) s')
      else (Inr buf, s))"
  by pat_completeness auto
termination
  by (relation "measure (\<lambda>(sz, buf, s). nat (sz - int (length buf)))") auto

definition recvall ::
  "int \<Rightarrow> 'a safe_stream_socket_scheme \<Rightarrow> (error + byte list) \<times> 'a safe_stream_socket_scheme" where
  "recvall sz s = recvall_loop sz [] s"

text \<open>
  \<open>sendall\<close> hands the whole buffer to the socket under a send timeout of 10 seconds
  (\<open>set_socket_timeout\<close> is not part of this file). The model is the write that
  completes: the bytes are recorded as sent.
\<close>

definition sendall :: "byte list \<Rightarrow> 'a safe_stream_socket_scheme \<Rightarrow> 'a safe_stream_socket_scheme" where
  "sendall data s = s\<lparr>trace := trace s @ [EvSend (sock s) data]\<rparr>"

text \<open>
  What the module reads from its host: the file system (\<open>os.path.exists\<close>,
  \<open>os.path.isfile\<close>), the builtin \<open>int\<close> on a string (\<open>None\<close> where it raises
  \<open>ValueError\<close>), whether a \<open>connect\<close> succeeds, whether \<open>load_cert_chain\<close>
  accepts the file, whether the TLS handshake succeeds, and the byte order of the
  machine (\<open>sys.byteorder\<close>), which \<open>struct\<close> uses for a format with no prefix.
\<close>

datatype byteorder = LittleEndian | BigEndian

record host =
  path_exists :: "string \<Rightarrow> bool"
  path_isfile :: "string \<Rightarrow> bool"
  py_int :: "string \<Rightarrow> int option"
  connect_ok :: "family \<Rightarrow> sockaddr \<Rightarrow> bool"
  cert_ok :: "string \<Rightarrow> bool"
  handshake_ok :: bool
  byteorder :: byteorder

text \<open>
  The state shared by all connections of the process: the counter \<open>_n[0]\<close> and the
  next socket object the system hands out.
\<close>

record world =
  uniq_n :: int
  next_handle :: handle

text \<open>
  The forms of \<open>addr\<close>: a socket object, a string, a \<open>(host, port)\<close> tuple.
\<close>

datatype address = AddrSocket handle | AddrStr string | AddrTuple string int

text \<open>\<open>addr.split(":", 1)\<close> on a string that contains a colon.\<close>

definition split_colon :: "string \<Rightarrow> string \<times> string" where
  "split_colon a =
     (takeWhile (\<lambda>c. c \<noteq> CHR '':'') a, drop 1 (dropWhile (\<lambda>c. c \<noteq> CHR '':'') a))"

text \<open>
  \<open>socket.socket(family, SOCK_STREAM)\<close> followed by \<open>connect(addr)\<close>; \<open>mk\<close> builds
  the object from the socket and the calls made on it.
\<close>

definition connect_new ::
  "host \<Rightarrow> family \<Rightarrow> sockaddr \<Rightarrow> (handle \<Rightarrow> event list \<Rightarrow> 'c) \<Rightarrow> world \<Rightarrow> (error + 'c) \<times> world" where
  "connect_new h fam a mk w =
     (let fd = next_handle w; w' = w\<lparr>next_handle := Suc fd\<rparr>
      in if connect_ok h fam a then (Inr (mk fd [EvSocket fd fam, EvConnect fd a]), w')
         else (Inl OSError, w'))"

text \<open>
  \<open>SafeStreamSocket.__init__\<close>. \<open>peer\<close> and \<open>net\<close> are the bytes the peer will send
  and the way the network will cut them; \<open>m\<close> is the part of the object a subclass adds.
  A socket handed in by the caller is taken to be a plain one.
\<close>

definition init_with ::
  "host \<Rightarrow> address \<Rightarrow> byte list \<Rightarrow> nat list \<Rightarrow> 'a \<Rightarrow> world \<Rightarrow> (error + 'a safe_stream_socket_scheme) \<times> world" where
  "init_with h addr peer net m w0 =
     (case get_uniq_id (uniq_n w0) of
        (i, n1) \<Rightarrow>
          let w1 = w0\<lparr>uniq_n := n1\<rparr>;
              mk = (\<lambda>fd evs.
                \<lparr>conn_id = i, sock = fd, sock_class = PlainSocket, name = None,
                 sock_gclist = [fd], dup_sock = None,
                 finalizer_alive = True, inbound = peer, chunking = net, trace = evs,
                 \<dots> = m\<rparr>)
          in (case addr of
               AddrSocket fd \<Rightarrow> (Inr (mk fd []), w1)
             | AddrStr a \<Rightarrow>
                 if CHR '':'' \<in> set a then
                   (case split_colon a of
                      (hst, port) \<Rightarrow>
                        (case py_int h port of
                           None \<Rightarrow> (Inl ValueError, w1)
                         | Some p \<Rightarrow> connect_new h AF_INET (HostPort hst p) mk w1))
                 else if path_exists h a then connect_new h AF_UNIX (UnixPath a) mk w1
                 else (Inl (MuxError (''socket unix:'' @ a @ '' unable to connect'')), w1)
             | AddrTuple hst p \<Rightarrow> connect_new h AF_INET (HostPort hst p) mk w1))"

definition init ::
  "host \<Rightarrow> address \<Rightarrow> byte list \<Rightarrow> nat list \<Rightarrow> world \<Rightarrow> (error + safe_stream_socket) \<times> world" where
  "init h addr peer net w0 = init_with h addr peer net () w0"

text \<open>
  \<open>close\<close> calls the finalizer. A live finalizer dies and runs \<open>_cleanup\<close> on
  \<open>_sock_gclist\<close>, which closes each socket of the list in order; a dead one does
  nothing. \<open>closed\<close> is \<open>not self._finalizer.alive\<close>.
\<close>

definition cleanup :: "handle list \<Rightarrow> event list" where
  "cleanup socks = map EvClose socks"

definition close :: "'a safe_stream_socket_scheme \<Rightarrow> 'a safe_stream_socket_scheme" where
  "close s =
     (if finalizer_alive s
      then s\<lparr>finalizer_alive := False, trace := trace s @ cleanup (sock_gclist s)\<rparr>
      else s)"

definition closed :: "'a safe_stream_socket_scheme \<Rightarrow> bool" where
  "closed s = (\<not> finalizer_alive s)"

text \<open>\<open>close\<close> called \<open>k\<close> times.\<close>

fun close_times :: "nat \<Rightarrow> 'a safe_stream_socket_scheme \<Rightarrow> 'a safe_stream_socket_scheme" where
  "close_times 0 s = s"
| "close_times (Suc k) s = close_times k (close s)"

text \<open>
  \<open>switch_to_ssl\<close>: the assertion on the file; \<open>self._sock.dup()\<close>, which works
  on a plain socket only (an \<open>SSLSocket\<close> raises \<open>NotImplementedError\<close>, a detached
  socket \<open>OSError\<close>), and the duplicate appended to \<open>_sock_gclist\<close>; the certificate
  loaded; then \<open>wrap_socket\<close>, which creates the TLS socket on the descriptor of
  \<open>_sock\<close>, detaches \<open>_sock\<close> from it and performs the handshake. When the handshake
  succeeds the TLS socket replaces \<open>_sock\<close>; \<open>_sock_gclist\<close> is not changed by the
  replacement. When it fails \<open>_sock\<close> stays the socket that was detached.
\<close>

definition switch_to_ssl ::
  "host \<Rightarrow> string \<Rightarrow> 'a safe_stream_socket_scheme \<Rightarrow> world \<Rightarrow>
     (error + unit) \<times> 'a safe_stream_socket_scheme \<times> world" where
  "switch_to_ssl h pemfile s w =
     (if \<not> path_isfile h pemfile then (Inl AssertionError, s, w)
      else
        (case sock_class s of
           SSLSocket \<Rightarrow> (Inl NotImplementedError, s, w)
         | DetachedSocket \<Rightarrow> (Inl OSError, s, w)
         | PlainSocket \<Rightarrow>
             (let d = next_handle w;
                  w1 = w\<lparr>next_handle := Suc d\<rparr>;
                  s1 = s\<lparr>dup_sock := Some d, sock_gclist := sock_gclist s @ [d],
                         trace := trace s @ [EvDup (sock s) d]\<rparr>
              in if \<not> cert_ok h pemfile then (Inl SSLError, s1, w1)
                 else
                   let ss = next_handle w1;
                       w2 = w1\<lparr>next_handle := Suc ss\<rparr>;
                       s2 = s1\<lparr>sock_class := DetachedSocket,
                              trace := trace s1 @ [EvWrap (sock s1) ss, EvHandshake ss]\<rparr>
                   in if \<not> handshake_ok h then (Inl SSLError, s2, w2)
                      else (Inr (), s2\<lparr>sock := ss, sock_class := SSLSocket\<rparr>, w2))))"

section \<open>struct\<close>

text \<open>
  \<open>struct.pack\<close> of a field \<open>I\<close> takes an integer from 0 to \<open>2^32 - 1\<close> and raises
  \<open>struct.error\<close> on any other; the field has 4 bytes. \<open>">I"\<close> is big-endian;
  \<open>"IIII"\<close> has no prefix and is in the byte order of the machine, with no padding
  between fields of the same size.
\<close>

definition in_u32 :: "int \<Rightarrow> bool" where
  "in_u32 v = (0 \<le> v \<and> v \<le> 4294967295)"

definition be32 :: "int \<Rightarrow> byte list" where
  "be32 v = [word_of_int (v div 16777216), word_of_int (v div 65536),
             word_of_int (v div 256), word_of_int v]"

definition native32 :: "byteorder \<Rightarrow> int \<Rightarrow> byte list" where
  "native32 bo v = (case bo of BigEndian \<Rightarrow> be32 v | LittleEndian \<Rightarrow> rev (be32 v))"

definition pack_be_I :: "int \<Rightarrow> error + byte list" where
  "pack_be_I v = (if in_u32 v then Inr (be32 v) else Inl StructError)"

definition pack_IIII :: "byteorder \<Rightarrow> int \<Rightarrow> int \<Rightarrow> int \<Rightarrow> int \<Rightarrow> error + byte list" where
  "pack_IIII bo a b c d =
     (if in_u32 a \<and> in_u32 b \<and> in_u32 c \<and> in_u32 d
      then Inr (native32 bo a @ native32 bo b @ native32 bo c @ native32 bo d)
      else Inl StructError)"

definition from_be :: "byte list \<Rightarrow> int" where
  "from_be bs = foldl (\<lambda>acc b. acc * 256 + uint b) 0 bs"

definition from_native :: "byteorder \<Rightarrow> byte list \<Rightarrow> int" where
  "from_native bo bs = from_be (case bo of BigEndian \<Rightarrow> bs | LittleEndian \<Rightarrow> rev bs)"

definition unpack_be_I :: "byte list \<Rightarrow> error + int" where
  "unpack_be_I bs = (if length bs = 4 then Inr (from_be bs) else Inl StructError)"

definition unpack_IIII :: "byteorder \<Rightarrow> byte list \<Rightarrow> error + int \<times> int \<times> int \<times> int" where
  "unpack_IIII bo bs =
     (if length bs = 16
      then Inr (from_native bo (take 4 bs), from_native bo (take 4 (drop 4 bs)),
                from_native bo (take 4 (drop 8 bs)), from_native bo (take 4 (drop 12 bs)))
      else Inl StructError)"

section \<open>PlistSocket\<close>

record plist_socket = safe_stream_socket +
  tag :: int
  first :: bool

text \<open>
  \<open>plistlib.dumps\<close> and \<open>plistlib.loads\<close> belong to the standard library: they are
  taken as they come, over any type \<open>'p\<close> of payloads.
\<close>

record 'p plistlib =
  dumps :: "'p \<Rightarrow> error + byte list"
  loads :: "byte list \<Rightarrow> error + 'p"

text \<open>
  \<open>PlistSocket.__init__\<close> for an address that is not itself a \<open>PlistSocket\<close>.
\<close>

definition plist_init ::
  "host \<Rightarrow> address \<Rightarrow> int \<Rightarrow> byte list \<Rightarrow> nat list \<Rightarrow> world \<Rightarrow> (error + plist_socket) \<times> world" where
  "plist_init h addr tg peer net w0 =
     init_with h addr peer net (plist_socket.fields tg True) w0"

definition is_secure :: "'a plist_socket_scheme \<Rightarrow> bool" where
  "is_secure s = (sock_class s = SSLSocket)"

text \<open>
  \<open>send_packet\<close>. The log lines are left out. \<open>first\<close> is read and not written.
\<close>

definition send_packet ::
  "'p plistlib \<Rightarrow> host \<Rightarrow> 'p \<Rightarrow> int \<Rightarrow> 'a plist_socket_scheme \<Rightarrow> (error + unit) \<times> 'a plist_socket_scheme" where
  "send_packet lib h payload message_type s =
     (case dumps lib payload of
        Inl e \<Rightarrow> (Inl e, s)
      | Inr body_data \<Rightarrow>
          (case (if first s
                 then pack_IIII (byteorder h) (16 + int (length body_data)) 1 message_type (tag s)
                 else pack_be_I (int (length body_data))) of
             Inl e \<Rightarrow> (Inl e, s)
           | Inr header \<Rightarrow> (Inr (), sendall (header @ body_data) s)))"

text \<open>
  \<open>send_packet\<close> called for each payload and message type of a list in turn, by a
  caller that goes on after a call that raised.
\<close>

fun send_all ::
  "'p plistlib \<Rightarrow> host \<Rightarrow> ('p \<times> int) list \<Rightarrow> 'a plist_socket_scheme \<Rightarrow> 'a plist_socket_scheme" where
  "send_all lib h [] s = s"
| "send_all lib h ((payload, message_type) # ps) s =
     send_all lib h ps (snd (send_packet lib h payload message_type s))"

text \<open>
  \<open>recv_packet\<close>; \<open>header_size\<close> is \<open>None\<close> by default. The flag \<open>first\<close> is cleared
  once the 16 bytes of the header have been read and unpacked. The log lines, with their
  test for the key \<open>PairRecordData\<close>, are left out: a payload is a mapping, on which
  the test does not raise.
\<close>

definition recv_body ::
  "'p plistlib \<Rightarrow> int \<Rightarrow> 'a plist_socket_scheme \<Rightarrow> (error + 'p) \<times> 'a plist_socket_scheme" where
  "recv_body lib len s =
     (case recvall len s of
        (Inl e, s') \<Rightarrow> (Inl e, s')
      | (Inr body_data, s') \<Rightarrow> (loads lib body_data, s'))"

definition recv_packet ::
  "'p plistlib \<Rightarrow> host \<Rightarrow> int option \<Rightarrow> 'a plist_socket_scheme \<Rightarrow> (error + 'p) \<times> 'a plist_socket_scheme" where
  "recv_packet lib h header_size s =
     (if first s \<or> header_size = Some 16 then
        (case recvall 16 s of
           (Inl e, s') \<Rightarrow> (Inl e, s')
         | (Inr header, s') \<Rightarrow>
             (case unpack_IIII (byteorder h) header of
                Inl e \<Rightarrow> (Inl e, s')
              | Inr (len, version, resp, tg) \<Rightarrow> recv_body lib (len - 16) (s'\<lparr>first := False\<rparr>)))
      else
        (case recvall 4 s of
           (Inl e, s') \<Rightarrow> (Inl e, s')
         | (Inr header, s') \<Rightarrow>
             (case unpack_be_I header of
                Inl e \<Rightarrow> (Inl e, s')
              | Inr len \<Rightarrow> recv_body lib len s')))"

section \<open>Reading the trace\<close>

text \<open>The chunks returned by the reads of a trace, and the buffers written, in order.\<close>

fun read_chunks :: "event list \<Rightarrow> byte list list" where
  "read_chunks [] = []"
| "read_chunks (EvRecv h k c # es) = c # read_chunks es"
| "read_chunks (e # es) = read_chunks es"

fun writes :: "event list \<Rightarrow> byte list list" where
  "writes [] = []"
| "writes (EvSend h d # es) = d # writes es"
| "writes (e # es) = writes es"

text \<open>The socket calls made between two states of one connection.\<close>

definition new_events :: "'a safe_stream_socket_scheme \<Rightarrow> 'a safe_stream_socket_scheme \<Rightarrow> event list" where
  "new_events s s' = drop (length (trace s)) (trace s')"

text \<open>How many times a socket has been closed in a trace.\<close>

definition close_count :: "handle \<Rightarrow> event list \<Rightarrow> nat" where
  "close_count fd evs = count_list evs (EvClose fd)"

text \<open>The duplicates made in a trace, and whether a trace is free of \<open>close\<close>.\<close>

fun dups :: "event list \<Rightarrow> handle list" where
  "dups [] = []"
| "dups (EvDup a d # es) = d # dups es"
| "dups (e # es) = dups es"

fun no_close :: "event list \<Rightarrow> bool" where
  "no_close [] = True"
| "no_close (EvClose fd # es) = False"
| "no_close (e # es) = no_close es"

text \<open>
  A connection that has not been closed, in a world that handed out every socket it owns:
  what the constructor gives and \<open>switch_to_ssl\<close> keeps.
\<close>

definition owns_ok :: "'a safe_stream_socket_scheme \<Rightarrow> world \<Rightarrow> bool" where
  "owns_ok c w =
     (finalizer_alive c \<and> distinct (sock_gclist c) \<and> no_close (trace c)
      \<and> list_all (\<lambda>fd. fd < next_handle w) (sock_gclist c))"

section \<open>Example hosts, sockets and channels\<close>

text \<open>
  Concrete values the properties below are run on. \<open>digits_int\<close> is what \<open>int\<close> gives
  on a string of decimal digits (it is used on such strings only); \<open>raw_plistlib\<close>
  stands for a serialiser in the examples: a payload that is its own serialisation.
  \<open>crlf_plistlib\<close> stands for a serialiser that does not read back all it writes: it
  gives a carriage return (13) back as a line feed (10), as the XML reader of
  \<open>plistlib\<close> does inside a string value. \<open>ex_fresh\<close> is the channel the constructor
  makes for \<open>/var/run/usbmuxd\<close> with tag 1 in \<open>ex_world\<close>.
\<close>

definition digits_int :: "string \<Rightarrow> int option" where
  "digits_int s =
     (if s \<noteq> [] \<and> list_all (\<lambda>c. 48 \<le> (of_char c :: nat) \<and> (of_char c :: nat) \<le> 57) s
      then Some (foldl (\<lambda>acc c. acc * 10 + (int (of_char c) - 48)) 0 s)
      else None)"

definition ex_host :: host where
  "ex_host = \<lparr>path_exists = (\<lambda>p. p = ''/var/run/usbmuxd''), path_isfile = (\<lambda>p. p = ''/tmp/pair.pem''),
     py_int = digits_int, connect_ok = (\<lambda>fam a. True), cert_ok = (\<lambda>p. True),
     handshake_ok = True, byteorder = LittleEndian\<rparr>"

definition ex_world :: world where
  "ex_world = \<lparr>uniq_n = 1, next_handle = 4\<rparr>"

definition ex_sock :: "byte list \<Rightarrow> nat list \<Rightarrow> safe_stream_socket" where
  "ex_sock peer net = \<lparr>conn_id = 1, sock = 3, sock_class = PlainSocket, name = None,
     sock_gclist = [3], dup_sock = None,
     finalizer_alive = True, inbound = peer, chunking = net, trace = []\<rparr>"

definition ex_chan :: "bool \<Rightarrow> byte list \<Rightarrow> nat list \<Rightarrow> plist_socket" where
  "ex_chan f peer net = \<lparr>conn_id = 1, sock = 3, sock_class = PlainSocket, name = None,
     sock_gclist = [3], dup_sock = None,
     finalizer_alive = True, inbound = peer, chunking = net, trace = [], tag = 1, first = f\<rparr>"

definition raw_plistlib :: "byte list plistlib" where
  "raw_plistlib = \<lparr>dumps = Inr, loads = Inr\<rparr>"

definition ex_world' :: world where
  "ex_world' = \<lparr>uniq_n = 2, next_handle = 5\<rparr>"

definition ex_world'' :: world where
  "ex_world'' = \<lparr>uniq_n = 2, next_handle = 7\<rparr>"

definition ex_conn :: safe_stream_socket where
  "ex_conn = \<lparr>conn_id = 2, sock = 4, sock_class = PlainSocket, name = None,
     sock_gclist = [4], dup_sock = None,
     finalizer_alive = True, inbound = [], chunking = [],
     trace = [EvSocket 4 AF_UNIX, EvConnect 4 (UnixPath ''/var/run/usbmuxd'')]\<rparr>"

definition ex_conn_tls :: safe_stream_socket where
  "ex_conn_tls = \<lparr>conn_id = 2, sock = 6, sock_class = SSLSocket, name = None,
     sock_gclist = [4, 5], dup_sock = Some 5,
     finalizer_alive = True, inbound = [], chunking = [],
     trace = [EvSocket 4 AF_UNIX, EvConnect 4 (UnixPath ''/var/run/usbmuxd''), EvDup 4 5,
              EvWrap 4 6, EvHandshake 6]\<rparr>"

definition crlf_plistlib :: "byte list plistlib" where
  "crlf_plistlib = \<lparr>dumps = Inr, loads = (\<lambda>bs. Inr (map (\<lambda>b. if b = 13 then 10 else b) bs))\<rparr>"

definition ex_fresh :: plist_socket where
  "ex_fresh = \<lparr>conn_id = 2, sock = 4, sock_class = PlainSocket, name = None,
     sock_gclist = [4], dup_sock = None,
     finalizer_alive = True, inbound = [], chunking = [],
     trace = [EvSocket 4 AF_UNIX, EvConnect 4 (UnixPath ''/var/run/usbmuxd'')],
     tag = 1, first = True\<rparr>"

definition ex_host_be :: host where
  "ex_host_be = ex_host\<lparr>byteorder := BigEndian\<rparr>"

section \<open>Facts about \<open>recv\<close> and the loop of \<open>recvall\<close>\<close>

lemma read_chunks_append: "read_chunks (xs @ ys) = read_chunks xs @ read_chunks ys"
  by (induction xs rule: read_chunks.induct) auto

lemma recv_length: "recv k s = (chunk, s') \<Longrightarrow> length chunk \<le> k"
  by (auto simp: recv_def Let_def split: list.splits)

lemma recv_inbound: "recv k s = (chunk, s') \<Longrightarrow> inbound s = chunk @ inbound s'"
  by (auto simp: recv_def Let_def)

lemma recv_trace: "recv k s = (chunk, s') \<Longrightarrow> trace s' = trace s @ [EvRecv (sock s) k chunk] \<and> sock s' = sock s"
  by (auto simp: recv_def Let_def)

lemma recv_nonempty: "recv k s = (chunk, s') \<Longrightarrow> 0 < k \<Longrightarrow> inbound s \<noteq> [] \<Longrightarrow> chunk \<noteq> []"
  by (auto simp: recv_def Let_def split: list.splits)

lemma recvall_loop_trace:
  "recvall_loop sz buf s = (r, s') \<Longrightarrow>
   \<exists>evs. trace s' = trace s @ evs \<and> sock s' = sock s \<and>
     (case r of
        Inr out \<Rightarrow> out = buf @ concat (read_chunks evs) \<and> [] \<notin> set (read_chunks evs)
          \<and> (int (length buf) \<le> sz \<longrightarrow> int (length out) = sz)
      | Inl e \<Rightarrow> e = MuxError ''socket connection broken'' \<and> [] \<in> set (read_chunks evs)
          \<and> int (length (buf @ concat (read_chunks evs))) < sz)"
proof (induction sz buf s arbitrary: r s' rule: recvall_loop.induct)
  case (1 sz buf s)
  show ?case
  proof (cases "int (length buf) < sz")
    case False
    with "1.prems" show ?thesis by auto
  next
    case True
    obtain chunk s1 where rc: "recv (nat (sz - int (length buf))) s = (chunk, s1)"
      by (cases "recv (nat (sz - int (length buf))) s")
    note tr = recv_trace [OF rc] and len = recv_length [OF rc]
    show ?thesis
    proof (cases "chunk = []")
      case True
      with \<open>int (length buf) < sz\<close> rc "1.prems" tr show ?thesis
        by (auto simp: read_chunks_append)
    next
      case False
      with \<open>int (length buf) < sz\<close> rc "1.prems"
      have rec: "recvall_loop sz (buf @ chunk) s1 = (r, s')" by simp
      from "1.IH" [OF \<open>int (length buf) < sz\<close> rc [symmetric] False rec]
      obtain evs where e: "trace s' = trace s1 @ evs" "sock s' = sock s1"
        "(case r of
        Inr out \<Rightarrow> out = (buf @ chunk) @ concat (read_chunks evs) \<and> [] \<notin> set (read_chunks evs)
          \<and> (int (length (buf @ chunk)) \<le> sz \<longrightarrow> int (length out) = sz)
      | Inl e \<Rightarrow> e = MuxError ''socket connection broken'' \<and> [] \<in> set (read_chunks evs)
          \<and> int (length ((buf @ chunk) @ concat (read_chunks evs))) < sz)" by blast
      have le: "int (length (buf @ chunk)) \<le> sz" using len True by auto
      show ?thesis
        apply (rule exI [of _ "EvRecv (sock s) (nat (sz - int (length buf))) chunk # evs"])
        using e tr False le by (auto split: sum.splits)
    qed
  qed
qed

lemma recvall_loop_stream:
  "recvall_loop sz buf s = (r, s') \<Longrightarrow> int (length buf) \<le> sz \<Longrightarrow>
   (if sz \<le> int (length buf) + int (length (inbound s))
    then r = Inr (buf @ take (nat (sz - int (length buf))) (inbound s))
       \<and> inbound s' = drop (nat (sz - int (length buf))) (inbound s)
    else r = Inl (MuxError ''socket connection broken''))"
proof (induction sz buf s arbitrary: r s' rule: recvall_loop.induct)
  case (1 sz buf s)
  show ?case
  proof (cases "int (length buf) < sz")
    case False
    with "1.prems" show ?thesis by auto
  next
    case True
    obtain chunk s1 where rc: "recv (nat (sz - int (length buf))) s = (chunk, s1)"
      by (cases "recv (nat (sz - int (length buf))) s")
    note len = recv_length [OF rc] and inb = recv_inbound [OF rc]
    show ?thesis
    proof (cases "chunk = []")
      case c: True
      have "inbound s = []" using recv_nonempty [OF rc] True c by auto
      with True rc c "1.prems" show ?thesis by auto
    next
      case False
      with True rc "1.prems"
      have rec: "recvall_loop sz (buf @ chunk) s1 = (r, s')" by simp
      have le: "int (length (buf @ chunk)) \<le> sz" using len True by auto
      note ih = "1.IH" [OF True rc [symmetric] False rec le]
      have tk: "take (nat (sz - int (length buf))) (chunk @ inbound s1) = chunk @ take (nat (sz - int (length (buf @ chunk)))) (inbound s1)"
        using le by (auto simp: nat_diff_distrib' nat_add_distrib)
      have dr: "drop (nat (sz - int (length buf))) (chunk @ inbound s1) = drop (nat (sz - int (length (buf @ chunk)))) (inbound s1)"
        using le by (auto simp: nat_diff_distrib' nat_add_distrib)
      show ?thesis using ih inb tk dr by (auto split: if_splits)
    qed
  qed
qed

lemma uniq_ids_gt: "v \<in> set (uniq_ids k n0) \<Longrightarrow> n0 < v"
proof (induction k arbitrary: n0)
  case 0
  then show ?case by simp
next
  case (Suc k)
  from Suc.prems have "v = n0 + 1 \<or> v \<in> set (uniq_ids k (n0 + 1))"
    by (simp add: get_uniq_id_def Let_def)
  then show ?case using Suc.IH [of "n0 + 1"] by auto
qed

section \<open>Facts about the constructor, \<open>switch_to_ssl\<close> and \<open>close\<close>\<close>

lemma split_colon_parts:
  assumes "CHR '':'' \<in> set a"
  shows "a = fst (split_colon a) @ CHR '':'' # snd (split_colon a)
       \<and> CHR '':'' \<notin> set (fst (split_colon a))"
proof -
  let ?p = "\<lambda>c. c \<noteq> CHR '':''"
  have ne: "dropWhile ?p a \<noteq> []" using assms by (simp add: dropWhile_eq_Nil_conv)
  then obtain x xs where d: "dropWhile ?p a = x # xs" by (cases "dropWhile ?p a") auto
  have "\<not> ?p (hd (dropWhile ?p a))" using ne by (rule hd_dropWhile)
  with d have x: "x = CHR '':''" by simp
  have "a = takeWhile ?p a @ dropWhile ?p a" by simp
  with d x have "a = takeWhile ?p a @ CHR '':'' # xs" by simp
  moreover have "CHR '':'' \<notin> set (takeWhile ?p a)" by (auto dest: set_takeWhileD)
  ultimately show ?thesis using d by (simp add: split_colon_def)
qed

lemma init_with_owns:
  assumes "init_with h addr peer net m w0 = (Inr c, w1)"
    and "case addr of AddrSocket fd \<Rightarrow> fd < next_handle w0 | AddrStr a \<Rightarrow> True | AddrTuple hst p \<Rightarrow> True"
  shows "owns_ok c w1 \<and> sock_gclist c = [sock c] \<and> dups (trace c) = []"
  using assms
  by (auto simp: init_with_def get_uniq_id_def connect_new_def Let_def owns_ok_def
      split: address.splits if_splits prod.splits option.splits)

lemma no_close_append: "no_close (xs @ ys) = (no_close xs \<and> no_close ys)"
  by (induction xs rule: no_close.induct) auto

lemma dups_append: "dups (xs @ ys) = dups xs @ dups ys"
  by (induction xs rule: dups.induct) auto

lemma list_all_less_mono: "list_all (\<lambda>fd. fd < n) xs \<Longrightarrow> n \<le> n' \<Longrightarrow> list_all (\<lambda>fd. fd < (n'::nat)) xs"
  by (induction xs) auto

lemma switch_to_ssl_owns:
  assumes "switch_to_ssl h f s w = (r, s', w')" and "owns_ok s w"
    and "sock_gclist s = p # dups (trace s)"
  shows "owns_ok s' w' \<and> sock_gclist s' = p # dups (trace s')"
proof (cases "path_isfile h f \<and> sock_class s = PlainSocket")
  case False
  with assms show ?thesis
    by (auto simp: switch_to_ssl_def split: socket_class.splits if_splits)
next
  case True
  let ?d = "next_handle w"
  have fresh: "?d \<notin> set (sock_gclist s)"
    using assms(2) by (auto simp: owns_ok_def list_all_iff)
  have lt: "list_all (\<lambda>fd. fd < Suc ?d) (sock_gclist s)" "list_all (\<lambda>fd. fd < Suc (Suc ?d)) (sock_gclist s)"
    using assms(2) by (auto simp: owns_ok_def intro: list_all_less_mono)
  show ?thesis
    using assms True fresh lt
    by (auto simp: switch_to_ssl_def Let_def owns_ok_def no_close_append dups_append
        split: if_splits)
qed

lemma switch_to_ssl_replaces_sock:
  assumes "switch_to_ssl h f s w = (Inr (), s', w')" and "owns_ok s w"
  shows "sock s' = Suc (next_handle w) \<and> sock_class s' = SSLSocket
     \<and> sock_gclist s' = sock_gclist s @ [next_handle w]
     \<and> sock s' \<notin> set (sock_gclist s')
     \<and> trace s' = trace s @ [EvDup (sock s) (next_handle w), EvWrap (sock s) (sock s'),
          EvHandshake (sock s')]"
proof -
  have "Suc (next_handle w) \<notin> set (sock_gclist s)"
    using assms(2) by (auto simp: owns_ok_def list_all_iff)
  then show ?thesis
    using assms(1)
    by (auto simp: switch_to_ssl_def Let_def split: if_splits socket_class.splits)
qed

lemma close_close: "close (close s) = close s"
  by (simp add: close_def)

lemma close_times_close: "close_times k (close s) = close s"
  by (induction k) (simp_all add: close_close)

lemma count_close_map: "count_list (map EvClose xs) (EvClose fd) = count_list xs fd"
  by (induction xs) auto

lemma count_no_close: "no_close evs \<Longrightarrow> count_list evs (EvClose fd) = 0"
  by (induction evs rule: no_close.induct) auto

lemma close_counts:
  assumes "owns_ok c w"
  shows "close_count fd (trace (close c)) = (if fd \<in> set (sock_gclist c) then 1 else 0)"
proof -
  have "distinct xs \<Longrightarrow> count_list xs fd = (if fd \<in> set xs then 1 else 0)" for xs
    by (induction xs) auto
  then have "count_list (sock_gclist c) fd = (if fd \<in> set (sock_gclist c) then 1 else 0)"
    using assms by (simp add: owns_ok_def)
  then show ?thesis
    using assms by (simp add: close_def close_count_def cleanup_def owns_ok_def
        count_close_map count_no_close)
qed

section \<open>Facts about \<open>struct\<close> and the two framings\<close>

lemma from_be_be32: "in_u32 v \<Longrightarrow> from_be (be32 v) = v"
proof -
  assume u: "in_u32 v"
  define a where "a = v div 256"
  define b where "b = a div 256"
  define c where "c = b div 256"
  have v: "v = 256 * a + v mod 256" by (simp add: a_def)
  have a: "a = 256 * b + a mod 256" by (simp add: b_def)
  have b: "b = 256 * c + b mod 256" by (simp add: c_def)
  have c0: "0 \<le> c" "c < 256" using u by (auto simp: in_u32_def a_def b_def c_def)
  have d2: "v div 65536 = b" unfolding b_def a_def by (simp add: div_mult2_eq [symmetric])
  have d3: "v div 16777216 = c" unfolding c_def b_def a_def by (simp add: div_mult2_eq [symmetric])
  have "from_be (be32 v) = 16777216 * (c mod 256) + 65536 * (b mod 256) + 256 * (a mod 256) + v mod 256"
    by (simp add: from_be_def be32_def uint_word_of_int take_bit_eq_mod d2 d3 a_def [symmetric])
  also have "c mod 256 = c" using c0 by simp
  finally show ?thesis using v a b by linarith
qed

lemma length_be32: "length (be32 v) = 4"
  by (simp add: be32_def)

lemma length_native32: "length (native32 bo v) = 4"
  by (cases bo) (simp_all add: native32_def be32_def)

lemma from_native_native32: "in_u32 v \<Longrightarrow> from_native bo (native32 bo v) = v"
  by (cases bo) (simp_all add: from_native_def native32_def from_be_be32)

lemma native32_le_one: "native32 LittleEndian 1 \<noteq> be32 1"
  by (simp add: native32_def be32_def)

lemma recv_first: "recv k s = (chunk, s') \<Longrightarrow> first s' = first s \<and> tag s' = tag s"
  by (auto simp: recv_def Let_def)

lemma recvall_loop_first:
  "recvall_loop sz buf s = (r, s') \<Longrightarrow> first s' = first s \<and> tag s' = tag s"
proof (induction sz buf s arbitrary: r s' rule: recvall_loop.induct)
  case (1 sz buf s)
  show ?case
  proof (cases "int (length buf) < sz")
    case False
    with "1.prems" show ?thesis by auto
  next
    case True
    obtain chunk s1 where rc: "recv (nat (sz - int (length buf))) s = (chunk, s1)"
      by (cases "recv (nat (sz - int (length buf))) s")
    show ?thesis
    proof (cases "chunk = []")
      case c: True
      with True rc "1.prems" recv_first [OF rc] show ?thesis by auto
    next
      case False
      with True rc "1.prems"
      have rec: "recvall_loop sz (buf @ chunk) s1 = (r, s')" by simp
      from "1.IH" [OF True rc [symmetric] False rec] recv_first [OF rc] show ?thesis by simp
    qed
  qed
qed

lemma recvall_first: "recvall n s = (r, s') \<Longrightarrow> first s' = first s \<and> tag s' = tag s"
  unfolding recvall_def by (rule recvall_loop_first)

lemma recvall_prefix:
  assumes "inbound s = pre @ rest" and "n = int (length pre)"
  shows "\<exists>s1. recvall n s = (Inr pre, s1) \<and> inbound s1 = rest"
proof -
  obtain r s1 where rs: "recvall n s = (r, s1)" by (cases "recvall n s")
  then have loop: "recvall_loop n [] s = (r, s1)" by (simp add: recvall_def)
  from recvall_loop_stream [OF loop] assms
  have "r = Inr pre \<and> inbound s1 = rest" by simp
  with rs show ?thesis by simp
qed

lemma recv_body_first: "recv_body lib n s = (r, s') \<Longrightarrow> first s' = first s"
  by (auto simp: recv_body_def split: prod.splits sum.splits dest: recvall_first)

lemma recv_body_prefix:
  assumes "inbound s = body @ rest"
  shows "\<exists>s1. recv_body lib (int (length body)) s = (loads lib body, s1) \<and> inbound s1 = rest
     \<and> first s1 = first s"
proof -
  from recvall_prefix [OF assms refl]
  obtain s1 where r: "recvall (int (length body)) s = (Inr body, s1)" "inbound s1 = rest" by blast
  then show ?thesis using recvall_first [OF r(1)] by (simp add: recv_body_def)
qed

lemma unpack_IIII_native:
  assumes "in_u32 a" "length f2 = 4" "length f3 = 4" "length f4 = 4"
  shows "\<exists>b c d. unpack_IIII bo (native32 bo a @ f2 @ f3 @ f4) = Inr (a, b, c, d)"
  using assms by (simp add: unpack_IIII_def length_native32 from_native_native32)

lemma recv_packet_first_header:
  assumes "first s \<or> hs = Some 16" and "in_u32 tot"
    and "length f2 = 4" "length f3 = 4" "length f4 = 4"
    and "inbound s = (native32 (byteorder h) tot @ f2 @ f3 @ f4) @ rest"
  shows "\<exists>s1. recvall 16 s = (Inr (native32 (byteorder h) tot @ f2 @ f3 @ f4), s1)
     \<and> inbound s1 = rest
     \<and> recv_packet lib h hs s = recv_body lib (tot - 16) (s1\<lparr>first := False\<rparr>)"
proof -
  let ?hdr = "native32 (byteorder h) tot @ f2 @ f3 @ f4"
  have len: "16 = int (length ?hdr)" using assms by (simp add: length_native32)
  from recvall_prefix [OF assms(6) len]
  obtain s1 where r: "recvall 16 s = (Inr ?hdr, s1)" "inbound s1 = rest" by blast
  from unpack_IIII_native [OF assms(2-5)]
  obtain b c d where u: "unpack_IIII (byteorder h) ?hdr = Inr (tot, b, c, d)" by blast
  show ?thesis using r u assms(1) by (auto simp: recv_packet_def)
qed

lemma recv_packet_next_header:
  assumes "\<not> first s" and "hs \<noteq> Some 16" and "in_u32 n"
    and "inbound s = be32 n @ rest"
  shows "\<exists>s1. recvall 4 s = (Inr (be32 n), s1) \<and> inbound s1 = rest
     \<and> recv_packet lib h hs s = recv_body lib n s1"
proof -
  have len: "4 = int (length (be32 n))" by (simp add: length_be32)
  from recvall_prefix [OF assms(4) len]
  obtain s1 where r: "recvall 4 s = (Inr (be32 n), s1)" "inbound s1 = rest" by blast
  show ?thesis using r assms(1-3)
    by (auto simp: recv_packet_def unpack_be_I_def length_be32 from_be_be32)
qed

lemma send_packet_first:
  assumes "first s" "dumps lib P = Inr body" "in_u32 (16 + int (length body))" "in_u32 mt" "in_u32 (tag s)"
  shows "send_packet lib h P mt s =
    (Inr (), sendall ((native32 (byteorder h) (16 + int (length body)) @ native32 (byteorder h) 1
       @ native32 (byteorder h) mt @ native32 (byteorder h) (tag s)) @ body) s)"
  using assms by (simp add: send_packet_def pack_IIII_def in_u32_def)

lemma send_packet_next:
  assumes "\<not> first s" "dumps lib P = Inr body" "in_u32 (int (length body))"
  shows "send_packet lib h P mt s = (Inr (), sendall (be32 (int (length body)) @ body) s)"
  using assms by (simp add: send_packet_def pack_be_I_def)

lemma new_events_sendall: "new_events s (sendall d s) = [EvSend (sock s) d]"
  by (simp add: new_events_def sendall_def)

lemma send_packet_keeps_first: "first (snd (send_packet lib h P mt s)) = first s"
  by (simp add: send_packet_def sendall_def split: sum.splits)

lemma recv_body_first_snd: "first (snd (recv_body lib n s)) = first s"
  using recv_body_first [of lib n s "fst (recv_body lib n s)" "snd (recv_body lib n s)"] by simp

lemma recv_packet_keeps_cleared:
  "\<not> first s \<Longrightarrow> \<not> first (snd (recv_packet lib h hs s))"
  by (auto simp: recv_packet_def recv_body_first_snd split: prod.splits sum.splits
      dest!: recvall_first)

lemma recv_packet_clears_first:
  assumes "16 \<le> length (inbound s)" and "first s \<or> hs = Some 16"
  shows "\<not> first (snd (recv_packet lib h hs s))"
proof -
  have i: "inbound s = take 16 (inbound s) @ drop 16 (inbound s)" by simp
  have l: "16 = int (length (take 16 (inbound s)))" using assms(1) by simp
  from recvall_prefix [OF i l]
  obtain s1 where r: "recvall 16 s = (Inr (take 16 (inbound s)), s1)" by blast
  have "\<exists>q. unpack_IIII (byteorder h) (take 16 (inbound s)) = Inr q"
    using assms(1) by (simp add: unpack_IIII_def)
  then obtain q where u: "unpack_IIII (byteorder h) (take 16 (inbound s)) = Inr q" by blast
  obtain len v rs tg where q: "q = (len, v, rs, tg)" by (cases q) auto
  obtain r2 s2 where b: "recv_body lib (len - 16) (s1\<lparr>first := False\<rparr>) = (r2, s2)"
    by (cases "recv_body lib (len - 16) (s1\<lparr>first := False\<rparr>)")
  from recv_body_first [OF b] have "\<not> first s2" by simp
  then show ?thesis using assms(2) r u q b by (simp add: recv_packet_def)
qed

lemma recvall_short:
  assumes "0 \<le> n" and "int (length (inbound s)) < n"
  shows "fst (recvall n s) = Inl (MuxError ''socket connection broken'')"
proof -
  obtain r s1 where rs: "recvall n s = (r, s1)" by (cases "recvall n s")
  then have loop: "recvall_loop n [] s = (r, s1)" by (simp add: recvall_def)
  from recvall_loop_stream [OF loop] assms
  have "r = Inl (MuxError ''socket connection broken'')" by simp
  with rs show ?thesis by simp
qed

lemma recv_packet_keeps_set:
  assumes "first s" and "length (inbound s) < 16"
  shows "first (snd (recv_packet lib h hs s))"
proof -
  obtain r s1 where rs: "recvall 16 s = (r, s1)" by (cases "recvall 16 s")
  have "fst (recvall 16 s) = Inl (MuxError ''socket connection broken'')"
    using assms(2) by (intro recvall_short) auto
  with rs have r: "r = Inl (MuxError ''socket connection broken'')" by simp
  from recvall_first [OF rs] assms(1) have "first s1" by simp
  then show ?thesis using assms(1) rs r by (simp add: recv_packet_def)
qed

lemma recv_packet_first_iff:
  "first (snd (recv_packet lib h hs s)) = (first s \<and> length (inbound s) < 16)"
proof (cases "first s")
  case False
  then show ?thesis using recv_packet_keeps_cleared [of s lib h hs] by simp
next
  case True
  show ?thesis
  proof (cases "length (inbound s) < 16")
    case short: True
    then show ?thesis using True recv_packet_keeps_set [of s lib h hs] by simp
  next
    case False
    then have "16 \<le> length (inbound s)" by simp
    then show ?thesis using True recv_packet_clears_first [of s hs lib h] by simp
  qed
qed

lemma plist_init_first:
  "plist_init h addr tg peer net w = (Inr c, w') \<Longrightarrow> first c \<and> tag c = tg"
  by (auto simp: plist_init_def init_with_def get_uniq_id_def connect_new_def Let_def
      plist_socket.defs
      split: address.splits if_splits prod.splits option.splits)

lemma send_all_keeps_first: "first (send_all lib h ps s) = first s"
proof (induction ps arbitrary: s)
  case Nil
  show ?case by simp
next
  case (Cons x ps)
  obtain payload mt where x: "x = (payload, mt)" by (cases x)
  show ?case using Cons [of "snd (send_packet lib h payload mt s)"]
    by (simp add: x send_packet_keeps_first)
qed

section \<open>The claims\<close>

text \<open>
  C5. For every byte count \<open>n\<close> and every way the network cuts the stream, \<open>recvall n\<close>
  accumulates the partial reads: when the peer sends at least \<open>n\<close> bytes before closing,
  it returns exactly the first \<open>n\<close> bytes and leaves the rest unread. Whenever it returns,
  the buffer has exactly \<open>n\<close> bytes, it is the concatenation of the chunks read, and no
  read returned zero bytes; whenever it fails, the error is "socket connection broken",
  a read returned zero bytes, and the bytes accumulated were fewer than \<open>n\<close>.
\<close>

theorem recvall_exact:
  assumes "0 \<le> n"
  shows "(n \<le> int (length (inbound s)) \<longrightarrow>
            fst (recvall n s) = Inr (take (nat n) (inbound s))
          \<and> inbound (snd (recvall n s)) = drop (nat n) (inbound s))
       \<and> (case recvall n s of
            (Inr buf, s') \<Rightarrow>
              int (length buf) = n \<and> buf = concat (read_chunks (new_events s s'))
              \<and> [] \<notin> set (read_chunks (new_events s s'))
          | (Inl e, s') \<Rightarrow>
              e = MuxError ''socket connection broken''
              \<and> [] \<in> set (read_chunks (new_events s s'))
              \<and> int (length (concat (read_chunks (new_events s s')))) < n)"
proof -
  obtain r s' where rs: "recvall n s = (r, s')" by (cases "recvall n s")
  then have loop: "recvall_loop n [] s = (r, s')" by (simp add: recvall_def)
  from recvall_loop_trace [OF loop] obtain evs where
    e: "trace s' = trace s @ evs" and
    c: "(case r of
        Inr out \<Rightarrow> out = [] @ concat (read_chunks evs) \<and> [] \<notin> set (read_chunks evs)
          \<and> (int (length ([]::byte list)) \<le> n \<longrightarrow> int (length out) = n)
      | Inl e \<Rightarrow> e = MuxError ''socket connection broken'' \<and> [] \<in> set (read_chunks evs)
          \<and> int (length ([] @ concat (read_chunks evs))) < n)" by blast
  have ne: "new_events s s' = evs" using e by (simp add: new_events_def)
  have st: "(if n \<le> int (length (inbound s))
    then r = Inr (take (nat n) (inbound s)) \<and> inbound s' = drop (nat n) (inbound s)
    else r = Inl (MuxError ''socket connection broken''))"
    using recvall_loop_stream [OF loop] assms by simp
  show ?thesis using rs ne c st assms by (auto split: sum.splits)
qed

theorem recvall_exact_witness:
  "(0::int) \<le> 5
   \<and> fst (recvall 5 (ex_sock [1, 2, 3, 4, 5, 6] [0, 1])) = Inr [1, 2, 3, 4, 5]
   \<and> inbound (snd (recvall 5 (ex_sock [1, 2, 3, 4, 5, 6] [0, 1]))) = [6]"
  using recvall_exact [of 5 "ex_sock [1, 2, 3, 4, 5, 6] [0, 1]"]
  by (simp add: ex_sock_def)

text \<open>
  C10. \<open>recvall 0\<close> returns the empty byte string and leaves the connection as it was,
  whatever its state: no read is made on the socket, also when the peer has closed.
\<close>

theorem recvall_zero: "recvall 0 s = (Inr [], s) \<and> new_events s (snd (recvall 0 s)) = []"
  by (simp add: recvall_def new_events_def)

theorem recvall_zero_witness:
  "recvall 0 (ex_sock [] []) = (Inr [], ex_sock [] [])
   \<and> new_events (ex_sock [] []) (snd (recvall 0 (ex_sock [] []))) = []"
  by (rule recvall_zero)

text \<open>
  C8. The values returned by any number of calls of \<open>get_uniq_id\<close>, in the order of the
  calls, are strictly increasing, hence pairwise distinct: each call returns a value
  greater than every value returned before.
\<close>

theorem get_uniq_id_increasing:
  "sorted_wrt (<) (uniq_ids k n0) \<and> distinct (uniq_ids k n0) \<and> length (uniq_ids k n0) = k"
proof (induction k arbitrary: n0)
  case 0
  show ?case by simp
next
  case (Suc k)
  have "\<And>v. v \<in> set (uniq_ids k (n0 + 1)) \<Longrightarrow> n0 + 1 < v" by (rule uniq_ids_gt)
  with Suc [of "n0 + 1"] show ?case by (auto simp: get_uniq_id_def Let_def)
qed

theorem get_uniq_id_increasing_witness:
  "uniq_ids 3 0 = [1, 2, 3] \<and> sorted_wrt (<) (uniq_ids 3 0) \<and> distinct (uniq_ids 3 0)"
  using get_uniq_id_increasing [of 3 0]
  by (simp add: eval_nat_numeral get_uniq_id_def)

text \<open>
  C7. When the file given to \<open>switch_to_ssl\<close> is not an existing file, the call fails
  at once on its assertion: the connection and the world are as before, so no socket
  was duplicated, no handshake was attempted and nothing was sent.
\<close>

theorem switch_to_ssl_missing_file:
  "\<not> path_isfile h pemfile \<Longrightarrow>
   switch_to_ssl h pemfile s w = (Inl AssertionError, s, w)
   \<and> new_events s (fst (snd (switch_to_ssl h pemfile s w))) = []"
  by (simp add: switch_to_ssl_def new_events_def)

theorem switch_to_ssl_missing_file_witness:
  "\<not> path_isfile ex_host ''/tmp/none.pem''
   \<and> switch_to_ssl ex_host ''/tmp/none.pem'' (ex_sock [] []) ex_world
       = (Inl AssertionError, ex_sock [] [], ex_world)"
  using switch_to_ssl_missing_file [of ex_host "''/tmp/none.pem''" "ex_sock [] []" ex_world]
  by (simp add: ex_host_def)

text \<open>
  C9. On a channel past its first message, \<open>send_packet\<close> does the same whatever the
  message type: same result, same bytes written, same state afterwards.
\<close>

theorem send_packet_ignores_message_type:
  "\<not> first s \<Longrightarrow> send_packet lib h payload mt1 s = send_packet lib h payload mt2 s"
  by (simp add: send_packet_def split: sum.splits)

theorem send_packet_ignores_message_type_witness:
  "\<not> first (ex_chan False [] [])
   \<and> send_packet raw_plistlib ex_host [1, 2, 3, 4] 8 (ex_chan False [] [])
     = send_packet raw_plistlib ex_host [1, 2, 3, 4] 9 (ex_chan False [] [])"
  using send_packet_ignores_message_type
    [of "ex_chan False [] []" raw_plistlib ex_host "[1, 2, 3, 4]" 8 9]
  by (simp add: ex_chan_def)

text \<open>
  C3 (as the code has it). A string address that contains a colon is split at the first
  colon into host and port text (the host has no colon); when the port text is an
  integer, a TCP socket is created and connected to that host and port. A string with no
  colon that names an existing path is connected as a local-domain socket. A string with
  no colon that names no existing path is rejected: the constructor raises \<open>MuxError\<close>
  and creates no socket.
\<close>

theorem init_string_address:
  "(CHR '':'' \<in> set a \<longrightarrow>
      a = fst (split_colon a) @ CHR '':'' # snd (split_colon a)
      \<and> CHR '':'' \<notin> set (fst (split_colon a)))
   \<and> (CHR '':'' \<in> set a \<and> py_int h (snd (split_colon a)) = Some p
      \<and> connect_ok h AF_INET (HostPort (fst (split_colon a)) p) \<longrightarrow>
      (\<exists>c w'. init h (AddrStr a) peer net w = (Inr c, w')
         \<and> sock c = next_handle w
         \<and> trace c = [EvSocket (next_handle w) AF_INET,
                       EvConnect (next_handle w) (HostPort (fst (split_colon a)) p)]))
   \<and> (CHR '':'' \<notin> set a \<and> path_exists h a \<and> connect_ok h AF_UNIX (UnixPath a) \<longrightarrow>
      (\<exists>c w'. init h (AddrStr a) peer net w = (Inr c, w')
         \<and> sock c = next_handle w
         \<and> trace c = [EvSocket (next_handle w) AF_UNIX, EvConnect (next_handle w) (UnixPath a)]))
   \<and> (CHR '':'' \<notin> set a \<and> \<not> path_exists h a \<longrightarrow>
      fst (init h (AddrStr a) peer net w)
        = Inl (MuxError (''socket unix:'' @ a @ '' unable to connect''))
      \<and> next_handle (snd (init h (AddrStr a) peer net w)) = next_handle w)"
  using split_colon_parts [of a]
  by (auto simp: init_def init_with_def get_uniq_id_def connect_new_def Let_def split: prod.splits)

text \<open>
  The bare host name \<open>localhost\<close>, on a host where no such path exists, is rejected
  and not connected to.
\<close>

theorem init_string_address_counterexample:
  "init ex_host (AddrStr ''localhost'') [] [] ex_world
     = (Inl (MuxError ''socket unix:localhost unable to connect''), \<lparr>uniq_n = 2, next_handle = 4\<rparr>)"
  by (simp add: init_def init_with_def get_uniq_id_def ex_host_def ex_world_def Let_def)

theorem init_string_address_witness:
  "CHR '':'' \<in> set ''localhost:27015''
   \<and> py_int ex_host (snd (split_colon ''localhost:27015'')) = Some 27015
   \<and> connect_ok ex_host AF_INET (HostPort (fst (split_colon ''localhost:27015'')) 27015)
   \<and> (\<exists>c w'. init ex_host (AddrStr ''localhost:27015'') [] [] ex_world = (Inr c, w')
         \<and> trace c = [EvSocket 4 AF_INET, EvConnect 4 (HostPort ''localhost'' 27015)])
   \<and> CHR '':'' \<notin> set ''/var/run/usbmuxd'' \<and> path_exists ex_host ''/var/run/usbmuxd''
   \<and> (\<exists>c w'. init ex_host (AddrStr ''/var/run/usbmuxd'') [] [] ex_world = (Inr c, w')
         \<and> trace c = [EvSocket 4 AF_UNIX, EvConnect 4 (UnixPath ''/var/run/usbmuxd'')])
   \<and> CHR '':'' \<notin> set ''localhost'' \<and> \<not> path_exists ex_host ''localhost''
   \<and> fst (init ex_host (AddrStr ''localhost'') [] [] ex_world)
        = Inl (MuxError ''socket unix:localhost unable to connect'')"
proof -
  have p: "py_int ex_host (snd (split_colon ''localhost:27015'')) = Some 27015"
    by (simp add: ex_host_def split_colon_def digits_int_def)
  have s: "fst (split_colon ''localhost:27015'') = ''localhost''"
    by (simp add: split_colon_def)
  have c: "\<And>fam a. connect_ok ex_host fam a" by (simp add: ex_host_def)
  have e: "path_exists ex_host ''/var/run/usbmuxd''" "\<not> path_exists ex_host ''localhost''"
    by (simp_all add: ex_host_def)
  have n: "next_handle ex_world = 4" by (simp add: ex_world_def)
  show ?thesis
    using init_string_address [of "''localhost:27015''" ex_host 27015 "[]" "[]" ex_world]
      init_string_address [of "''/var/run/usbmuxd''" ex_host 0 "[]" "[]" ex_world]
      init_string_address [of "''localhost''" ex_host 0 "[]" "[]" ex_world]
      p s c e n
    by auto
qed


text \<open>
  What \<open>close\<close> does on any connection that has not been closed: any number of calls
  is the same as one, the connection is closed afterwards, every socket of
  \<open>_sock_gclist\<close> has been closed exactly once and no other socket at all. After a
  successful \<open>switch_to_ssl\<close> the socket in \<open>_sock\<close> is such another socket.
\<close>

lemma close_closes_gclist_once:
  assumes "owns_ok c w"
  shows "\<not> closed c \<and> closed (close c) \<and> close_times (Suc k) c = close c
     \<and> close_count fd (trace (close_times (Suc k) c)) = (if fd \<in> set (sock_gclist c) then 1 else 0)"
proof -
  have t: "close_times (Suc k) c = close c" by (simp add: close_times_close)
  have a: "finalizer_alive c" using assms by (simp add: owns_ok_def)
  show ?thesis
    unfolding t using a close_counts [OF assms] by (simp add: closed_def close_def)
qed

lemma close_never_closes_tls_socket:
  assumes "owns_ok s w" and "sock_gclist s = p # dups (trace s)"
    and "switch_to_ssl h f s w = (Inr (), s', w')"
  shows "close_count (sock s') (trace (close_times (Suc k) s')) = 0
     \<and> EvWrap (sock s) (sock s') \<in> set (trace s')"
proof -
  from switch_to_ssl_owns [OF assms(3,1,2)] have o: "owns_ok s' w'" by simp
  from switch_to_ssl_replaces_sock [OF assms(3,1)]
  have n: "sock s' \<notin> set (sock_gclist s')" "EvWrap (sock s) (sock s') \<in> set (trace s')"
    by auto
  show ?thesis using close_closes_gclist_once [OF o, of k "sock s'"] n by auto
qed

text \<open>
  C6. The connection made for \<open>/var/run/usbmuxd\<close>, after a \<open>switch_to_ssl\<close> that
  succeeds: \<open>_sock\<close> is the TLS socket 6 and \<open>_sock_gclist\<close> holds the constructor's
  socket 4, which \<open>wrap_socket\<close> has detached, and the duplicate 5. \<open>close\<close> closes
  4 and 5 and makes no call on 6: the socket the connection uses is not closed. A second
  \<open>close\<close> changes nothing, and \<open>closed\<close> is false before and true after.
\<close>

theorem close_misses_tls_socket:
  "init ex_host (AddrStr ''/var/run/usbmuxd'') [] [] ex_world = (Inr ex_conn, ex_world')
   \<and> switch_to_ssl ex_host ''/tmp/pair.pem'' ex_conn ex_world' = (Inr (), ex_conn_tls, ex_world'')
   \<and> sock ex_conn_tls = 6 \<and> sock_class ex_conn_tls = SSLSocket
   \<and> sock_gclist ex_conn_tls = [4, 5]
   \<and> EvWrap 4 6 \<in> set (trace ex_conn_tls)
   \<and> \<not> closed ex_conn_tls \<and> closed (close ex_conn_tls)
   \<and> new_events ex_conn_tls (close ex_conn_tls) = [EvClose 4, EvClose 5]
   \<and> close_count 4 (trace (close ex_conn_tls)) = 1
   \<and> close_count 5 (trace (close ex_conn_tls)) = 1
   \<and> close_count 6 (trace (close ex_conn_tls)) = 0
   \<and> close (close ex_conn_tls) = close ex_conn_tls"
proof -
  have i: "init ex_host (AddrStr ''/var/run/usbmuxd'') [] [] ex_world = (Inr ex_conn, ex_world')"
    by (simp add: init_def init_with_def get_uniq_id_def connect_new_def ex_host_def ex_world_def
        ex_conn_def ex_world'_def Let_def)
  have u: "switch_to_ssl ex_host ''/tmp/pair.pem'' ex_conn ex_world' = (Inr (), ex_conn_tls, ex_world'')"
    by (simp add: switch_to_ssl_def ex_host_def ex_conn_def ex_world'_def ex_conn_tls_def
        ex_world''_def Let_def)
  have c: "close ex_conn_tls = ex_conn_tls\<lparr>finalizer_alive := False,
      trace := trace ex_conn_tls @ [EvClose 4, EvClose 5]\<rparr>"
    by (simp add: close_def cleanup_def ex_conn_tls_def)
  show ?thesis
    unfolding c using i u
    by (simp add: ex_conn_tls_def closed_def close_def new_events_def close_count_def)
qed

text \<open>
  C1 (as the code has it). Let \<open>P\<close> be a payload that \<open>plistlib.dumps\<close> serialises,
  with header fields that fit an unsigned 32-bit field: on the 16-byte path 16 plus the
  length of the serialisation, the message type and the tag; on the 4-byte path the
  length of the serialisation. Let the receiving channel be in the framing state of the
  sending one: both with the first-message flag set, or both with it cleared and no
  16-byte header forced. Then \<open>send_packet\<close> succeeds, and \<open>recv_packet\<close> on the bytes
  written, cut by the network in any way and followed by any other bytes, returns exactly
  what \<open>plistlib.loads\<close> gives on the serialisation of \<open>P\<close>, which is \<open>P\<close> whenever
  \<open>plistlib\<close> reads \<open>P\<close> back; it leaves exactly the other bytes unread and the
  receiver's flag cleared.
\<close>

theorem loopback_roundtrip:
  assumes ser: "dumps lib P = Inr body"
    and same: "first b = first a"
    and unforced: "first a \<or> hs \<noteq> Some 16"
    and fits: "if first a then in_u32 (16 + int (length body)) \<and> in_u32 mt \<and> in_u32 (tag a)
         else in_u32 (int (length body))"
    and wire: "inbound b = concat (writes (new_events a (snd (send_packet lib h P mt a)))) @ rest"
  shows "fst (send_packet lib h P mt a) = Inr ()
     \<and> fst (recv_packet lib h hs b) = loads lib body
     \<and> (loads lib body = Inr P \<longrightarrow> fst (recv_packet lib h hs b) = Inr P)
     \<and> inbound (snd (recv_packet lib h hs b)) = rest
     \<and> \<not> first (snd (recv_packet lib h hs b))"
proof (cases "first a")
  case True
  let ?hdr = "native32 (byteorder h) (16 + int (length body)) @ native32 (byteorder h) 1
       @ native32 (byteorder h) mt @ native32 (byteorder h) (tag a)"
  from True fits have u: "in_u32 (16 + int (length body))" "in_u32 mt" "in_u32 (tag a)" by auto
  note sp = send_packet_first [OF True ser u, of h]
  have inb: "inbound b = ?hdr @ body @ rest"
    using wire by (simp add: sp new_events_sendall)
  have fb: "first b \<or> hs = Some 16" using True same by simp
  from recv_packet_first_header [where s = b and hs = hs and h = h and lib = lib
      and tot = "16 + int (length body)" and ?f2.0 = "native32 (byteorder h) 1"
      and ?f3.0 = "native32 (byteorder h) mt" and ?f4.0 = "native32 (byteorder h) (tag a)"
      and rest = "body @ rest", OF fb u(1) length_native32 length_native32 length_native32 inb]
  obtain s1 where s1: "inbound s1 = body @ rest"
    "recv_packet lib h hs b = recv_body lib (16 + int (length body) - 16) (s1\<lparr>first := False\<rparr>)"
    by auto
  have "inbound (s1\<lparr>first := False\<rparr>) = body @ rest" using s1(1) by simp
  from recv_body_prefix [OF this, of lib]
  obtain s2 where "recv_body lib (int (length body)) (s1\<lparr>first := False\<rparr>) = (loads lib body, s2)"
    "inbound s2 = rest" "first s2 = first (s1\<lparr>first := False\<rparr>)" by blast
  then show ?thesis using s1(2) sp by simp
next
  case False
  from False fits have u: "in_u32 (int (length body))" by simp
  note sp = send_packet_next [OF False ser u, of h mt]
  have inb: "inbound b = be32 (int (length body)) @ body @ rest"
    using wire by (simp add: sp new_events_sendall)
  have fb: "\<not> first b" "hs \<noteq> Some 16" using False same unforced by simp_all
  from recv_packet_next_header [OF fb u inb, of lib h]
  obtain s1 where s1: "inbound s1 = body @ rest" "recvall 4 b = (Inr (be32 (int (length body))), s1)"
    "recv_packet lib h hs b = recv_body lib (int (length body)) s1"
    by auto
  from recv_body_prefix [OF s1(1), of lib]
  obtain s2 where "recv_body lib (int (length body)) s1 = (loads lib body, s2)"
    "inbound s2 = rest" "first s2 = first s1" by blast
  then show ?thesis using s1(3) sp recvall_first [OF s1(2)] fb by simp
qed

text \<open>
  The ways the round trip fails. A payload whose serialisation has \<open>2^32 - 16\<close>
  bytes, a message type of \<open>-1\<close>, a tag of \<open>2^32\<close>: \<open>struct.pack\<close> raises on
  the field of the first header and nothing is sent. A receiver past its first message
  that is made to read a 16-byte header does not find it. A pair of fresh channels: the sender has not received, so its second message
  carries a 16-byte header again, which the receiver, past its first message, reads as a
  4-byte length: the first message arrives and the second is lost; and the receiver's
  reply carries a 4-byte header, which the sender, still on its first message, cannot read.
  A serialiser that reads a carriage return back as a line feed: the payload that arrives
  is not the payload sent.
\<close>

theorem loopback_roundtrip_counterexample:
  "send_packet raw_plistlib ex_host (replicate 4294967280 0) 8 (ex_chan True [] [])
       = (Inl StructError, ex_chan True [] [])
   \<and> send_packet raw_plistlib ex_host [1, 2, 3, 4] (- 1) (ex_chan True [] [])
       = (Inl StructError, ex_chan True [] [])
   \<and> send_packet raw_plistlib ex_host [1, 2, 3, 4] 8 ((ex_chan True [] [])\<lparr>tag := 4294967296\<rparr>)
       = (Inl StructError, (ex_chan True [] [])\<lparr>tag := 4294967296\<rparr>)
   \<and> fst (recv_packet raw_plistlib ex_host (Some 16) (ex_chan False [0, 0, 0, 4, 1, 2, 3, 4] []))
       = Inl (MuxError ''socket connection broken'')
   \<and> concat (writes (trace (snd (send_packet raw_plistlib ex_host [5, 6] 8
        (snd (send_packet raw_plistlib ex_host [1, 2, 3, 4] 8 (ex_chan True [] [])))))))
       = [20, 0, 0, 0, 1, 0, 0, 0, 8, 0, 0, 0, 1, 0, 0, 0, 1, 2, 3, 4,
          18, 0, 0, 0, 1, 0, 0, 0, 8, 0, 0, 0, 1, 0, 0, 0, 5, 6]
   \<and> fst (recv_packet raw_plistlib ex_host None (ex_chan True
         [20, 0, 0, 0, 1, 0, 0, 0, 8, 0, 0, 0, 1, 0, 0, 0, 1, 2, 3, 4,
          18, 0, 0, 0, 1, 0, 0, 0, 8, 0, 0, 0, 1, 0, 0, 0, 5, 6] []))
       = Inr [1, 2, 3, 4]
   \<and> fst (recv_packet raw_plistlib ex_host None
         (snd (recv_packet raw_plistlib ex_host None (ex_chan True
           [20, 0, 0, 0, 1, 0, 0, 0, 8, 0, 0, 0, 1, 0, 0, 0, 1, 2, 3, 4,
            18, 0, 0, 0, 1, 0, 0, 0, 8, 0, 0, 0, 1, 0, 0, 0, 5, 6] []))))
       = Inl (MuxError ''socket connection broken'')
   \<and> concat (writes (trace (snd (send_packet raw_plistlib ex_host [7] 8
        (snd (recv_packet raw_plistlib ex_host None (ex_chan True
           [20, 0, 0, 0, 1, 0, 0, 0, 8, 0, 0, 0, 1, 0, 0, 0, 1, 2, 3, 4] [])))))))
       = [0, 0, 0, 1, 7]
   \<and> fst (recv_packet raw_plistlib ex_host None
         (snd (send_packet raw_plistlib ex_host [1, 2, 3, 4] 8 (ex_chan True [0, 0, 0, 1, 7] []))))
       = Inl (MuxError ''socket connection broken'')
   \<and> dumps crlf_plistlib [97, 13, 98] = Inr [97, 13, 98]
   \<and> fst (recv_packet crlf_plistlib ex_host None (ex_chan True
         (concat (writes (trace (snd (send_packet crlf_plistlib ex_host [97, 13, 98] 8
            (ex_chan True [] [])))))) []))
       = Inr [97, 10, 98]"
proof -
  have big: "send_packet raw_plistlib ex_host (replicate 4294967280 0) 8 (ex_chan True [] [])
       = (Inl StructError, ex_chan True [] [])"
    by (simp add: raw_plistlib_def send_packet_def ex_chan_def pack_IIII_def in_u32_def)
  have mt: "send_packet raw_plistlib ex_host [1, 2, 3, 4] (- 1) (ex_chan True [] [])
       = (Inl StructError, ex_chan True [] [])"
    by (simp add: raw_plistlib_def send_packet_def ex_chan_def pack_IIII_def in_u32_def)
  have tg: "send_packet raw_plistlib ex_host [1, 2, 3, 4] 8 ((ex_chan True [] [])\<lparr>tag := 4294967296\<rparr>)
       = (Inl StructError, (ex_chan True [] [])\<lparr>tag := 4294967296\<rparr>)"
    by (simp add: raw_plistlib_def send_packet_def ex_chan_def pack_IIII_def in_u32_def)
  have forced: "fst (recv_packet raw_plistlib ex_host (Some 16) (ex_chan False [0, 0, 0, 4, 1, 2, 3, 4] []))
       = Inl (MuxError ''socket connection broken'')"
    by (simp add: recv_packet_def recvall_def recv_def ex_chan_def Let_def)
  have two: "concat (writes (trace (snd (send_packet raw_plistlib ex_host [5, 6] 8
        (snd (send_packet raw_plistlib ex_host [1, 2, 3, 4] 8 (ex_chan True [] [])))))))
       = [20, 0, 0, 0, 1, 0, 0, 0, 8, 0, 0, 0, 1, 0, 0, 0, 1, 2, 3, 4,
          18, 0, 0, 0, 1, 0, 0, 0, 8, 0, 0, 0, 1, 0, 0, 0, 5, 6]"
    by (simp add: send_packet_def raw_plistlib_def ex_chan_def ex_host_def pack_IIII_def
        in_u32_def native32_def be32_def sendall_def)
  have got: "fst (recv_packet raw_plistlib ex_host None (ex_chan True
         [20, 0, 0, 0, 1, 0, 0, 0, 8, 0, 0, 0, 1, 0, 0, 0, 1, 2, 3, 4,
          18, 0, 0, 0, 1, 0, 0, 0, 8, 0, 0, 0, 1, 0, 0, 0, 5, 6] []))
       = Inr [1, 2, 3, 4]"
    by (simp add: recv_packet_def recv_body_def recvall_def recv_def raw_plistlib_def
        ex_chan_def ex_host_def unpack_IIII_def from_native_def from_be_def Let_def)
  have lost: "fst (recv_packet raw_plistlib ex_host None
         (snd (recv_packet raw_plistlib ex_host None (ex_chan True
           [20, 0, 0, 0, 1, 0, 0, 0, 8, 0, 0, 0, 1, 0, 0, 0, 1, 2, 3, 4,
            18, 0, 0, 0, 1, 0, 0, 0, 8, 0, 0, 0, 1, 0, 0, 0, 5, 6] []))))
       = Inl (MuxError ''socket connection broken'')"
    by (simp add: recv_packet_def recv_body_def recvall_def recv_def raw_plistlib_def
        ex_chan_def ex_host_def unpack_IIII_def unpack_be_I_def from_native_def from_be_def
        Let_def)
  have reply: "concat (writes (trace (snd (send_packet raw_plistlib ex_host [7] 8
        (snd (recv_packet raw_plistlib ex_host None (ex_chan True
           [20, 0, 0, 0, 1, 0, 0, 0, 8, 0, 0, 0, 1, 0, 0, 0, 1, 2, 3, 4] [])))))))
       = [0, 0, 0, 1, 7]"
    by (simp add: send_packet_def pack_be_I_def in_u32_def be32_def sendall_def
        recv_packet_def recv_body_def recvall_def recv_def raw_plistlib_def
        ex_chan_def ex_host_def unpack_IIII_def from_native_def from_be_def Let_def)
  have unread: "fst (recv_packet raw_plistlib ex_host None
         (snd (send_packet raw_plistlib ex_host [1, 2, 3, 4] 8 (ex_chan True [0, 0, 0, 1, 7] []))))
       = Inl (MuxError ''socket connection broken'')"
    by (simp add: send_packet_def pack_IIII_def in_u32_def native32_def be32_def sendall_def
        recv_packet_def recv_body_def recvall_def recv_def raw_plistlib_def
        ex_chan_def ex_host_def Let_def)
  have ser: "dumps crlf_plistlib [97, 13, 98] = Inr [97, 13, 98]"
    by (simp add: crlf_plistlib_def)
  have crlf: "fst (recv_packet crlf_plistlib ex_host None (ex_chan True
         (concat (writes (trace (snd (send_packet crlf_plistlib ex_host [97, 13, 98] 8
            (ex_chan True [] [])))))) []))
       = Inr [97, 10, 98]"
    by (simp add: send_packet_def pack_IIII_def in_u32_def native32_def be32_def sendall_def
        recv_packet_def recv_body_def recvall_def recv_def crlf_plistlib_def ex_chan_def
        ex_host_def unpack_IIII_def from_native_def from_be_def Let_def)
  show ?thesis using big mt tg forced two got lost reply unread ser crlf by simp
qed

theorem loopback_roundtrip_witness:
  "dumps raw_plistlib [1, 2, 3, 4] = Inr [1, 2, 3, 4]
   \<and> loads raw_plistlib [1, 2, 3, 4] = Inr [1, 2, 3, 4]
   \<and> send_packet raw_plistlib ex_host [1, 2, 3, 4] 8 (ex_chan True [] [])
       = (Inr (), sendall [20, 0, 0, 0, 1, 0, 0, 0, 8, 0, 0, 0, 1, 0, 0, 0, 1, 2, 3, 4] (ex_chan True [] []))
   \<and> fst (recv_packet raw_plistlib ex_host None
        (ex_chan True [20, 0, 0, 0, 1, 0, 0, 0, 8, 0, 0, 0, 1, 0, 0, 0, 1, 2, 3, 4, 9] [2, 0]))
       = Inr [1, 2, 3, 4]
   \<and> send_packet raw_plistlib ex_host [1, 2, 3, 4] 8 (ex_chan False [] [])
       = (Inr (), sendall [0, 0, 0, 4, 1, 2, 3, 4] (ex_chan False [] []))
   \<and> fst (recv_packet raw_plistlib ex_host None (ex_chan False [0, 0, 0, 4, 1, 2, 3, 4, 9] [2, 0]))
       = Inr [1, 2, 3, 4]"
proof -
  have d: "dumps raw_plistlib [1, 2, 3, 4] = Inr [1, 2, 3, 4]"
    "loads raw_plistlib [1, 2, 3, 4] = Inr [1, 2, 3, 4]"
    by (simp_all add: raw_plistlib_def)
  have s1: "send_packet raw_plistlib ex_host [1, 2, 3, 4] 8 (ex_chan True [] [])
       = (Inr (), sendall [20, 0, 0, 0, 1, 0, 0, 0, 8, 0, 0, 0, 1, 0, 0, 0, 1, 2, 3, 4] (ex_chan True [] []))"
    by (simp add: send_packet_def raw_plistlib_def ex_chan_def ex_host_def pack_IIII_def in_u32_def
        native32_def be32_def)
  have s2: "send_packet raw_plistlib ex_host [1, 2, 3, 4] 8 (ex_chan False [] [])
       = (Inr (), sendall [0, 0, 0, 4, 1, 2, 3, 4] (ex_chan False [] []))"
    by (simp add: send_packet_def raw_plistlib_def ex_chan_def pack_be_I_def in_u32_def be32_def)
  have r1: "fst (recv_packet raw_plistlib ex_host None
        (ex_chan True [20, 0, 0, 0, 1, 0, 0, 0, 8, 0, 0, 0, 1, 0, 0, 0, 1, 2, 3, 4, 9] [2, 0]))
       = Inr [1, 2, 3, 4]"
    using loopback_roundtrip [of raw_plistlib "[1, 2, 3, 4]" "[1, 2, 3, 4]"
        "ex_chan True [20, 0, 0, 0, 1, 0, 0, 0, 8, 0, 0, 0, 1, 0, 0, 0, 1, 2, 3, 4, 9] [2, 0]"
        "ex_chan True [] []" None 8 ex_host "[9]"] d
    by (simp add: s1 new_events_sendall) (simp add: ex_chan_def in_u32_def)
  have r2: "fst (recv_packet raw_plistlib ex_host None (ex_chan False [0, 0, 0, 4, 1, 2, 3, 4, 9] [2, 0]))
       = Inr [1, 2, 3, 4]"
    using loopback_roundtrip [of raw_plistlib "[1, 2, 3, 4]" "[1, 2, 3, 4]"
        "ex_chan False [0, 0, 0, 4, 1, 2, 3, 4, 9] [2, 0]"
        "ex_chan False [] []" None 8 ex_host "[9]"] d
    by (simp add: s2 new_events_sendall) (simp add: ex_chan_def in_u32_def)
  show ?thesis using d s1 s2 r1 r2 by simp
qed

text \<open>
  C2 (as the code has it). The constructor sets the first-message flag. \<open>send_packet\<close>
  never changes it, whatever the call gives, and so does any run of calls. While the flag
  is set a send that succeeds (the payload serialises, and 16 plus its length, the message
  type and the tag fit an unsigned 32-bit field) writes a 16-byte header; so the first
  send and every later send made before the first receive do. \<open>recv_packet\<close> is the
  only one to clear the flag: the flag is set after the call exactly when it was set
  before and fewer than 16 bytes arrived for the header, so a header read that fails
  leaves it set, the arrival of the 16 bytes clears it, and a cleared flag stays cleared.
  Once it is cleared a send that succeeds (the payload serialises and its length fits an
  unsigned 32-bit field) writes a 4-byte header.
\<close>

theorem first_flag_cleared_by_receive:
  "(plist_init h addr tg peer net w = (Inr c, w') \<longrightarrow> first c \<and> tag c = tg)
   \<and> first (snd (send_packet lib h P mt s)) = first s
   \<and> first (send_all lib h ps s) = first s
   \<and> (first s \<and> dumps lib P = Inr body \<and> in_u32 (16 + int (length body)) \<and> in_u32 mt
       \<and> in_u32 (tag s) \<longrightarrow>
      (\<exists>hdr. length hdr = 16 \<and> send_packet lib h P mt s = (Inr (), sendall (hdr @ body) s)))
   \<and> (\<not> first s \<and> dumps lib P = Inr body \<and> in_u32 (int (length body)) \<longrightarrow>
      (\<exists>hdr. length hdr = 4 \<and> send_packet lib h P mt s = (Inr (), sendall (hdr @ body) s)))
   \<and> first (snd (recv_packet lib h hs s)) = (first s \<and> length (inbound s) < 16)"
proof -
  have a: "first s \<and> dumps lib P = Inr body \<and> in_u32 (16 + int (length body)) \<and> in_u32 mt
       \<and> in_u32 (tag s) \<longrightarrow>
      (\<exists>hdr. length hdr = 16 \<and> send_packet lib h P mt s = (Inr (), sendall (hdr @ body) s))"
  proof
    assume p: "first s \<and> dumps lib P = Inr body \<and> in_u32 (16 + int (length body)) \<and> in_u32 mt
       \<and> in_u32 (tag s)"
    then have "send_packet lib h P mt s =
      (Inr (), sendall ((native32 (byteorder h) (16 + int (length body)) @ native32 (byteorder h) 1
       @ native32 (byteorder h) mt @ native32 (byteorder h) (tag s)) @ body) s)"
      by (intro send_packet_first) auto
    moreover have "length (native32 (byteorder h) (16 + int (length body)) @ native32 (byteorder h) 1
       @ native32 (byteorder h) mt @ native32 (byteorder h) (tag s)) = 16"
      by (simp add: length_native32)
    ultimately show "\<exists>hdr. length hdr = 16 \<and> send_packet lib h P mt s = (Inr (), sendall (hdr @ body) s)"
      by blast
  qed
  have b: "\<not> first s \<and> dumps lib P = Inr body \<and> in_u32 (int (length body)) \<longrightarrow>
      (\<exists>hdr. length hdr = 4 \<and> send_packet lib h P mt s = (Inr (), sendall (hdr @ body) s))"
  proof
    assume p: "\<not> first s \<and> dumps lib P = Inr body \<and> in_u32 (int (length body))"
    then have "send_packet lib h P mt s = (Inr (), sendall (be32 (int (length body)) @ body) s)"
      by (intro send_packet_next) auto
    then show "\<exists>hdr. length hdr = 4 \<and> send_packet lib h P mt s = (Inr (), sendall (hdr @ body) s)"
      using length_be32 by blast
  qed
  have i: "plist_init h addr tg peer net w = (Inr c, w') \<longrightarrow> first c \<and> tag c = tg"
    using plist_init_first [of h addr tg peer net w c w'] by blast
  show ?thesis
    using i a b send_packet_keeps_first [of lib h P mt s] send_all_keeps_first [of lib h ps s]
      recv_packet_first_iff [of lib h hs s]
    by blast
qed

text \<open>
  Two sends in a row on a fresh channel: the second one also writes a 16-byte header.
\<close>

theorem first_flag_cleared_by_receive_counterexample:
  "first (ex_chan True [] [])
   \<and> writes (trace (snd (send_packet raw_plistlib ex_host [5, 6] 8
        (snd (send_packet raw_plistlib ex_host [1, 2, 3, 4] 8 (ex_chan True [] []))))))
     = [20, 0, 0, 0, 1, 0, 0, 0, 8, 0, 0, 0, 1, 0, 0, 0, 1, 2, 3, 4]
        # [18, 0, 0, 0, 1, 0, 0, 0, 8, 0, 0, 0, 1, 0, 0, 0, 5, 6] # []"
  by (simp add: send_packet_def raw_plistlib_def ex_chan_def ex_host_def pack_IIII_def in_u32_def
      native32_def be32_def sendall_def)

theorem first_flag_cleared_by_receive_witness:
  "plist_init ex_host (AddrStr ''/var/run/usbmuxd'') 1 [] [] ex_world = (Inr ex_fresh, ex_world')
   \<and> first ex_fresh \<and> tag ex_fresh = 1
   \<and> dumps raw_plistlib [1, 2, 3, 4] = Inr [1, 2, 3, 4]
   \<and> in_u32 (16 + int (length [1, 2, 3, 4 :: byte])) \<and> in_u32 8 \<and> in_u32 (tag ex_fresh)
   \<and> (\<exists>hdr. length hdr = 16 \<and> send_packet raw_plistlib ex_host [1, 2, 3, 4] 8 ex_fresh
          = (Inr (), sendall (hdr @ [1, 2, 3, 4]) ex_fresh))
   \<and> first (snd (send_packet raw_plistlib ex_host [1, 2, 3, 4] 8 ex_fresh))
   \<and> first (send_all raw_plistlib ex_host [([1, 2, 3, 4], 8), ([5, 6], 8)] ex_fresh)
   \<and> first (snd (recv_packet raw_plistlib ex_host None (ex_chan True [20, 0, 0] [])))
   \<and> \<not> first (snd (recv_packet raw_plistlib ex_host None
          (ex_chan True [20, 0, 0, 0, 1, 0, 0, 0, 8, 0, 0, 0, 1, 0, 0, 0, 1, 2, 3, 4] [])))
   \<and> \<not> first (ex_chan False [] []) \<and> in_u32 (int (length [1, 2, 3, 4 :: byte]))
   \<and> (\<exists>hdr. length hdr = 4 \<and> send_packet raw_plistlib ex_host [1, 2, 3, 4] 8 (ex_chan False [] [])
          = (Inr (), sendall (hdr @ [1, 2, 3, 4]) (ex_chan False [] [])))"
proof -
  have i: "plist_init ex_host (AddrStr ''/var/run/usbmuxd'') 1 [] [] ex_world = (Inr ex_fresh, ex_world')"
    by (simp add: plist_init_def init_with_def get_uniq_id_def connect_new_def ex_host_def
        ex_world_def ex_fresh_def ex_world'_def Let_def plist_socket.defs)
  have f: "first (ex_chan True x y)" "\<not> first (ex_chan False x y)" "tag (ex_chan z x y) = 1"
    "inbound (ex_chan z x y) = x" for x y z
    by (simp_all add: ex_chan_def)
  have d: "dumps raw_plistlib [1, 2, 3, 4] = Inr [1, 2, 3, 4]" by (simp add: raw_plistlib_def)
  have u: "in_u32 20" "in_u32 8" "in_u32 1" "in_u32 4" by (simp_all add: in_u32_def)
  show ?thesis
    using first_flag_cleared_by_receive [of ex_host "AddrStr ''/var/run/usbmuxd''" 1 "[]" "[]"
        ex_world ex_fresh ex_world' raw_plistlib "[1, 2, 3, 4]" 8 ex_fresh
        "[([1, 2, 3, 4], 8), ([5, 6], 8)]" "[1, 2, 3, 4]" None]
      first_flag_cleared_by_receive [of ex_host "AddrStr ''/var/run/usbmuxd''" 1 "[]" "[]"
        ex_world ex_fresh ex_world' raw_plistlib "[1, 2, 3, 4]" 8 "ex_chan True [20, 0, 0] []"
        "[]" "[1, 2, 3, 4]" None]
      first_flag_cleared_by_receive [of ex_host "AddrStr ''/var/run/usbmuxd''" 1 "[]" "[]"
        ex_world ex_fresh ex_world' raw_plistlib "[1, 2, 3, 4]" 8
        "ex_chan True [20, 0, 0, 0, 1, 0, 0, 0, 8, 0, 0, 0, 1, 0, 0, 0, 1, 2, 3, 4] []"
        "[]" "[1, 2, 3, 4]" None]
      first_flag_cleared_by_receive [of ex_host "AddrStr ''/var/run/usbmuxd''" 1 "[]" "[]"
        ex_world ex_fresh ex_world' raw_plistlib "[1, 2, 3, 4]" 8 "ex_chan False [] []"
        "[]" "[1, 2, 3, 4]" None]
      i f d u
    by simp
qed

text \<open>
  C4 (as the code has it). Past the first message \<open>send_packet\<close> writes the payload
  length as 4 big-endian bytes. On the first message it writes 16 bytes: 16 plus the
  payload length, the version 1, the message type and the tag, each as 4 bytes in the byte
  order of the host, the same for all four. On a little-endian host this header differs
  from the big-endian packing of the same fields; on a big-endian host it is that packing.
  \<open>recv_packet\<close> reads both forms back with the same two formats. (Header fields
  fitting 32 bits.)
\<close>

theorem header_formats:
  "(\<not> first s \<and> dumps lib P = Inr body \<and> in_u32 (int (length body)) \<longrightarrow>
      send_packet lib h P mt s = (Inr (), sendall (be32 (int (length body)) @ body) s))
   \<and> (first s \<and> dumps lib P = Inr body \<and> in_u32 (16 + int (length body)) \<and> in_u32 mt
       \<and> in_u32 (tag s) \<longrightarrow>
      send_packet lib h P mt s =
        (Inr (), sendall ((native32 (byteorder h) (16 + int (length body))
           @ native32 (byteorder h) 1 @ native32 (byteorder h) mt
           @ native32 (byteorder h) (tag s)) @ body) s))
   \<and> length (be32 v) = 4
   \<and> length (native32 bo a @ native32 bo b @ native32 bo c @ native32 bo d) = 16
   \<and> native32 BigEndian v = be32 v \<and> native32 LittleEndian v = rev (be32 v)
   \<and> (in_u32 v \<longrightarrow> from_be (be32 v) = v \<and> from_native bo (native32 bo v) = v)
   \<and> native32 LittleEndian a @ native32 LittleEndian 1 @ native32 LittleEndian c
        @ native32 LittleEndian d \<noteq> be32 a @ be32 1 @ be32 c @ be32 d
   \<and> ((first s \<or> hs = Some 16) \<and> in_u32 (16 + int (length data))
       \<and> inbound s = (native32 (byteorder h) (16 + int (length data)) @ native32 (byteorder h) b
            @ native32 (byteorder h) c @ native32 (byteorder h) d) @ data @ rest \<longrightarrow>
      fst (recv_packet lib h hs s) = loads lib data
      \<and> inbound (snd (recv_packet lib h hs s)) = rest)
   \<and> (\<not> first s \<and> hs \<noteq> Some 16 \<and> in_u32 (int (length data))
       \<and> inbound s = be32 (int (length data)) @ data @ rest \<longrightarrow>
      fst (recv_packet lib h hs s) = loads lib data
      \<and> inbound (snd (recv_packet lib h hs s)) = rest)"
proof -
  have s1: "\<not> first s \<and> dumps lib P = Inr body \<and> in_u32 (int (length body)) \<longrightarrow>
      send_packet lib h P mt s = (Inr (), sendall (be32 (int (length body)) @ body) s)"
    using send_packet_next [of s lib P body h mt] by blast
  have s2: "first s \<and> dumps lib P = Inr body \<and> in_u32 (16 + int (length body)) \<and> in_u32 mt
       \<and> in_u32 (tag s) \<longrightarrow>
      send_packet lib h P mt s =
        (Inr (), sendall ((native32 (byteorder h) (16 + int (length body))
           @ native32 (byteorder h) 1 @ native32 (byteorder h) mt
           @ native32 (byteorder h) (tag s)) @ body) s)"
    using send_packet_first [of s lib P body mt h] by blast
  have l: "length (be32 v) = 4"
    "length (native32 bo a @ native32 bo b @ native32 bo c @ native32 bo d) = 16"
    by (simp_all add: length_be32 length_native32)
  have n: "native32 BigEndian v = be32 v" "native32 LittleEndian v = rev (be32 v)"
    by (simp_all add: native32_def)
  have d: "in_u32 v \<longrightarrow> from_be (be32 v) = v \<and> from_native bo (native32 bo v) = v"
    by (simp add: from_be_be32 from_native_native32)
  have ne: "native32 LittleEndian a @ native32 LittleEndian 1 @ native32 LittleEndian c
        @ native32 LittleEndian d \<noteq> be32 a @ be32 1 @ be32 c @ be32 d"
    by (simp add: native32_def be32_def)
  have r1: "(first s \<or> hs = Some 16) \<and> in_u32 (16 + int (length data))
       \<and> inbound s = (native32 (byteorder h) (16 + int (length data)) @ native32 (byteorder h) b
            @ native32 (byteorder h) c @ native32 (byteorder h) d) @ data @ rest \<longrightarrow>
      fst (recv_packet lib h hs s) = loads lib data
      \<and> inbound (snd (recv_packet lib h hs s)) = rest"
  proof
    assume p: "(first s \<or> hs = Some 16) \<and> in_u32 (16 + int (length data))
       \<and> inbound s = (native32 (byteorder h) (16 + int (length data)) @ native32 (byteorder h) b
            @ native32 (byteorder h) c @ native32 (byteorder h) d) @ data @ rest"
    then have p1: "first s \<or> hs = Some 16" and p2: "in_u32 (16 + int (length data))"
      and p3: "inbound s = (native32 (byteorder h) (16 + int (length data)) @ native32 (byteorder h) b
            @ native32 (byteorder h) c @ native32 (byteorder h) d) @ data @ rest" by auto
    from recv_packet_first_header [OF p1 p2 length_native32 length_native32 length_native32 p3, of lib]
    obtain s1 where s1: "inbound s1 = data @ rest"
      "recv_packet lib h hs s = recv_body lib (16 + int (length data) - 16) (s1\<lparr>first := False\<rparr>)"
      by auto
    have "inbound (s1\<lparr>first := False\<rparr>) = data @ rest" using s1(1) by simp
    from recv_body_prefix [OF this, of lib]
    obtain s2 where "recv_body lib (int (length data)) (s1\<lparr>first := False\<rparr>) = (loads lib data, s2)"
      "inbound s2 = rest" by blast
    then show "fst (recv_packet lib h hs s) = loads lib data
      \<and> inbound (snd (recv_packet lib h hs s)) = rest" using s1(2) by simp
  qed
  have r2: "\<not> first s \<and> hs \<noteq> Some 16 \<and> in_u32 (int (length data))
       \<and> inbound s = be32 (int (length data)) @ data @ rest \<longrightarrow>
      fst (recv_packet lib h hs s) = loads lib data
      \<and> inbound (snd (recv_packet lib h hs s)) = rest"
  proof
    assume p: "\<not> first s \<and> hs \<noteq> Some 16 \<and> in_u32 (int (length data))
       \<and> inbound s = be32 (int (length data)) @ data @ rest"
    then have p1: "\<not> first s" and p2: "hs \<noteq> Some 16" and p3: "in_u32 (int (length data))"
      and p4: "inbound s = be32 (int (length data)) @ data @ rest" by auto
    from recv_packet_next_header [OF p1 p2 p3 p4, of lib h]
    obtain s1 where s1: "inbound s1 = data @ rest"
      "recv_packet lib h hs s = recv_body lib (int (length data)) s1" by auto
    from recv_body_prefix [OF s1(1), of lib]
    obtain s2 where "recv_body lib (int (length data)) s1 = (loads lib data, s2)"
      "inbound s2 = rest" by blast
    then show "fst (recv_packet lib h hs s) = loads lib data
      \<and> inbound (snd (recv_packet lib h hs s)) = rest" using s1(2) by simp
  qed
  show ?thesis using s1 s2 l n d ne r1 r2 by blast
qed

text \<open>
  On a big-endian host the first header is the big-endian packing of its four fields, the
  convention of the later headers.
\<close>

theorem header_formats_counterexample:
  "byteorder ex_host_be = BigEndian
   \<and> send_packet raw_plistlib ex_host_be [1, 2, 3, 4] 8 (ex_chan True [] [])
      = (Inr (), sendall ((be32 20 @ be32 1 @ be32 8 @ be32 1) @ [1, 2, 3, 4]) (ex_chan True [] []))
   \<and> send_packet raw_plistlib ex_host_be [1, 2, 3, 4] 8 (ex_chan False [] [])
      = (Inr (), sendall (be32 4 @ [1, 2, 3, 4]) (ex_chan False [] []))"
  by (simp add: send_packet_def raw_plistlib_def ex_chan_def ex_host_be_def ex_host_def
      pack_IIII_def pack_be_I_def in_u32_def native32_def)

theorem header_formats_witness:
  "\<not> first (ex_chan False [] []) \<and> first (ex_chan True [] [])
   \<and> dumps raw_plistlib [1, 2, 3, 4] = Inr [1, 2, 3, 4]
   \<and> in_u32 (int (length [1, 2, 3, 4 :: byte])) \<and> in_u32 (16 + int (length [1, 2, 3, 4 :: byte]))
   \<and> in_u32 8 \<and> in_u32 (tag (ex_chan True [] []))
   \<and> send_packet raw_plistlib ex_host [1, 2, 3, 4] 8 (ex_chan False [] [])
      = (Inr (), sendall [0, 0, 0, 4, 1, 2, 3, 4] (ex_chan False [] []))
   \<and> send_packet raw_plistlib ex_host [1, 2, 3, 4] 8 (ex_chan True [] [])
      = (Inr (), sendall [20, 0, 0, 0, 1, 0, 0, 0, 8, 0, 0, 0, 1, 0, 0, 0, 1, 2, 3, 4] (ex_chan True [] []))
   \<and> fst (recv_packet raw_plistlib ex_host None
        (ex_chan True [20, 0, 0, 0, 1, 0, 0, 0, 8, 0, 0, 0, 1, 0, 0, 0, 1, 2, 3, 4, 9] [0, 0, 0]))
      = Inr [1, 2, 3, 4]
   \<and> fst (recv_packet raw_plistlib ex_host None (ex_chan False [0, 0, 0, 4, 1, 2, 3, 4, 9] [0, 0, 0]))
      = Inr [1, 2, 3, 4]"
proof -
  have f: "first (ex_chan True x y)" "\<not> first (ex_chan False x y)" "tag (ex_chan z x y) = 1"
    "inbound (ex_chan z x y) = x" for x y z
    by (simp_all add: ex_chan_def)
  have d: "dumps raw_plistlib [1, 2, 3, 4] = Inr [1, 2, 3, 4]"
    "loads raw_plistlib [1, 2, 3, 4] = Inr [1, 2, 3, 4]" by (simp_all add: raw_plistlib_def)
  have u: "in_u32 20" "in_u32 8" "in_u32 1" "in_u32 4" by (simp_all add: in_u32_def)
  have b: "byteorder ex_host = LittleEndian" by (simp add: ex_host_def)
  have e: "be32 4 = [0, 0, 0, 4]" "be32 20 = [0, 0, 0, 20]" "be32 1 = [0, 0, 0, 1]"
    "be32 8 = [0, 0, 0, 8]" by (simp_all add: be32_def)
  show ?thesis
    using header_formats [of "ex_chan False [] []" raw_plistlib "[1, 2, 3, 4]" "[1, 2, 3, 4]"
        ex_host 8 0 LittleEndian 0 0 0 0 None "[]" "[]"]
      header_formats [of "ex_chan True [] []" raw_plistlib "[1, 2, 3, 4]" "[1, 2, 3, 4]"
        ex_host 8 0 LittleEndian 0 0 0 0 None "[]" "[]"]
      header_formats [of "ex_chan True [20, 0, 0, 0, 1, 0, 0, 0, 8, 0, 0, 0, 1, 0, 0, 0, 1, 2, 3, 4, 9] [0, 0, 0]"
        raw_plistlib "[1, 2, 3, 4]" "[1, 2, 3, 4]"
        ex_host 8 0 LittleEndian 0 1 8 1 None "[1, 2, 3, 4]" "[9]"]
      header_formats [of "ex_chan False [0, 0, 0, 4, 1, 2, 3, 4, 9] [0, 0, 0]"
        raw_plistlib "[1, 2, 3, 4]" "[1, 2, 3, 4]"
        ex_host 8 0 LittleEndian 0 1 8 1 None "[1, 2, 3, 4]" "[9]"]
      f d u b e
    by (simp add: native32_def)
qed


end
